theory Spec2Isabelle
  imports Complex_Main "HOL-Library.Sublist" "HOL-Library.AList" "HOL-Library.Multiset"
begin

section \<open>Data model of \<open>trace_comparator.py\<close>\<close>

text \<open>
  The comparator is Python 2: strings are byte strings (\<open>string\<close>), integers are
  unbounded (\<open>int\<close>), and a dictionary keyed by thread id is an association list
  with distinct keys, maintained by \<open>AList.update\<close>.  Python floats are modelled
  as exact rationals.  The three exceptions the modelled code can raise are values.
\<close>

datatype error = IndexError | ZeroDivisionError | KeyError

text \<open>One entry of \<open>trace_obj["thread_info"]\<close>: \<open>{"name": ..., "trace": [...]}\<close>.\<close>

record thread_rec =
  name :: string
  trace :: "string list"

record trace_obj =
  version :: int
  thread_info :: "(int \<times> thread_rec) list"

text \<open>
  The groups captured by \<open>TRACE_ITEM_RE\<close> on one event line:
  thread id, action (\<open>ent\<close>, \<open>xit\<close>, \<open>unr\<close>), exclusive markers (\<open>!*\<close>), depth,
  class and method, and the two trailing fields.
\<close>

record line_info =
  li_tid :: int
  li_action :: string
  li_marks :: string
  li_depth :: string
  li_method :: string
  li_field5 :: string
  li_field6 :: string

text \<open>
  What \<open>dmtracedump -o\<close> printed, after the textual layer of \<open>process_trace\<close>
  (splitting into lines and matching the regular expressions): the version, the thread
  declaration lines as (tid, name), and the event lines up to the first empty line.
\<close>

record decoded_trace =
  dt_version :: int
  dt_threads :: "(int \<times> string) list"
  dt_items :: "line_info list"

text \<open>One element of \<open>trace_similarity_list\<close>; \<open>None\<close> is JSON \<open>null\<close>.\<close>

record comparison_record =
  real_id :: int
  real_name :: string
  real_trace :: "string list option"
  emu_id :: int
  emu_name :: string
  e_trace :: "string list option"
  sim_cov :: rat
  max_common_len :: nat
  diverge_idx :: nat
  sim_max_common :: rat

section \<open>\<open>trace_str_to_class_method\<close> and \<open>clean_trace\<close>\<close>

text \<open>\<open>str.isalpha\<close> on one byte, in the C locale.\<close>

definition isalpha :: "char \<Rightarrow> bool" where
  "isalpha c = (let n = (of_char c :: nat) in (65 \<le> n \<and> n \<le> 90) \<or> (97 \<le> n \<and> n \<le> 122))"

text \<open>
  The \<open>while not trace_str[trace_idx].isalpha()\<close> loop, on the part of the string from
  \<open>trace_idx\<close> on: reading past the end raises \<open>IndexError\<close>.
\<close>

fun skip_non_alpha :: "string \<Rightarrow> error + string" where
  "skip_non_alpha [] = Inl IndexError"
| "skip_non_alpha (c # cs) = (if isalpha c then Inr (c # cs) else skip_non_alpha cs)"

definition trace_str_to_class_method :: "string \<Rightarrow> error + string" where
  "trace_str_to_class_method trace_str = skip_non_alpha (drop (length ''ent '') trace_str)"

definition ex_class_list :: "string list" where
  "ex_class_list =
     [''android.'', ''com.android'', ''com.google.android.collect'', ''dalvik.system'',
      ''java.'', ''libcore.'', ''sun.'']"

definition startswith :: "string \<Rightarrow> string \<Rightarrow> bool" where
  "startswith s p = (take (length p) s = p)"

fun clean_trace :: "string list \<Rightarrow> error + string list" where
  "clean_trace [] = Inr []"
| "clean_trace (trace_str # trace_list) =
     (case trace_str_to_class_method trace_str of
        Inl e \<Rightarrow> Inl e
      | Inr trimmed_trace_str \<Rightarrow>
          (case clean_trace trace_list of
             Inl e \<Rightarrow> Inl e
           | Inr ret_trace_list \<Rightarrow>
               Inr (if list_ex (startswith trimmed_trace_str) ex_class_list
                    then ret_trace_list
                    else trace_str # ret_trace_list)))"

section \<open>\<open>process_trace\<close>\<close>

text \<open>The thread declaration loop: each line stores a fresh entry under its tid.\<close>

fun declare_threads ::
  "(int \<times> thread_rec) list \<Rightarrow> (int \<times> string) list \<Rightarrow> (int \<times> thread_rec) list" where
  "declare_threads d [] = d"
| "declare_threads d ((tid, nm) # ls) =
     declare_threads (AList.update tid \<lparr>name = nm, trace = []\<rparr> d) ls"

text \<open>The canonical event string \<open>"%s%s %s %s %s"\<close>.\<close>

definition format_item :: "line_info \<Rightarrow> string" where
  "format_item li =
     li_action li @ li_marks li @ '' '' @ li_method li @ '' '' @ li_field5 li @ '' '' @ li_field6 li"

text \<open>The event loop: an event of an undeclared thread raises \<open>KeyError\<close>.\<close>

fun append_items ::
  "(int \<times> thread_rec) list \<Rightarrow> line_info list \<Rightarrow> error + (int \<times> thread_rec) list" where
  "append_items d [] = Inr d"
| "append_items d (li # lis) =
     (case map_of d (li_tid li) of
        None \<Rightarrow> Inl KeyError
      | Some th \<Rightarrow>
          append_items (AList.update (li_tid li) (th\<lparr>trace := trace th @ [format_item li]\<rparr>) d) lis)"

definition process_trace :: "decoded_trace \<Rightarrow> error + trace_obj" where
  "process_trace t =
     (case append_items (declare_threads [] (dt_threads t)) (dt_items t) of
        Inl e \<Rightarrow> Inl e
      | Inr d \<Rightarrow>
          Inr \<lparr>version = dt_version t,
               thread_info = filter (\<lambda>(tid, th). length (trace th) \<noteq> 0) d\<rparr>)"

section \<open>\<open>trace_similarity\<close>\<close>

fun class_methods :: "string list \<Rightarrow> error + string set" where
  "class_methods [] = Inr {}"
| "class_methods (trace_str # trace_list) =
     (case trace_str_to_class_method trace_str of
        Inl e \<Rightarrow> Inl e
      | Inr cm \<Rightarrow>
          (case class_methods trace_list of
             Inl e \<Rightarrow> Inl e
           | Inr s \<Rightarrow> Inr (insert cm s)))"

text \<open>\<open>os.path.commonprefix\<close> of two strings.\<close>

fun commonprefix :: "string \<Rightarrow> string \<Rightarrow> string" where
  "commonprefix (a # as) (b # bs) = (if a = b then a # commonprefix as bs else [])"
| "commonprefix _ _ = []"

definition trace_similarity ::
  "string \<Rightarrow> string list \<Rightarrow> string \<Rightarrow> string list \<Rightarrow> error + rat" where
  "trace_similarity name_a trace_a name_b trace_b =
     (case class_methods trace_a of
        Inl e \<Rightarrow> Inl e
      | Inr class_methods_a \<Rightarrow>
          (case class_methods trace_b of
             Inl e \<Rightarrow> Inl e
           | Inr class_methods_b \<Rightarrow>
               if max (length name_a) (length name_b) = 0 then Inl ZeroDivisionError
               else if card (class_methods_a \<union> class_methods_b) = 0 then Inl ZeroDivisionError
               else
                 Inr ((of_nat (length (commonprefix name_a name_b))
                         / of_nat (max (length name_a) (length name_b)))
                      * (of_nat (card (class_methods_a \<inter> class_methods_b))
                         / of_nat (card (class_methods_a \<union> class_methods_b))))))"

section \<open>The assignment solver\<close>

text \<open>
  Modelled from the spec: \<open>scipy.optimize.linear_sum_assignment\<close> is a library routine
  and not part of the repository.  The spec asks for a minimum-cost bipartite assignment
  on a general, possibly rectangular, cost matrix that produces \<open>min(|device|, |emulator|)\<close>
  pairs and breaks ties the same way on every run.  The model enumerates every assignment
  of that size (rows increasing, columns pairwise different) in lexicographic order and
  returns the first one of least total cost, as (row, column) pairs in row order, which is
  the shape of \<open>zip(r_idx, e_idx)\<close>.
\<close>

fun assignments :: "nat \<Rightarrow> nat list \<Rightarrow> nat list \<Rightarrow> (nat \<times> nat) list list" where
  "assignments 0 rows cols = [[]]"
| "assignments (Suc k) [] cols = []"
| "assignments (Suc k) (r # rows) cols =
     concat (map (\<lambda>c. map ((#) (r, c)) (assignments k rows (remove1 c cols))) cols)
     @ assignments (Suc k) rows cols"

definition total_cost :: "rat list list \<Rightarrow> (nat \<times> nat) list \<Rightarrow> rat" where
  "total_cost C a = sum_list (map (\<lambda>(i, j). C ! i ! j) a)"

definition linear_sum_assignment :: "nat \<Rightarrow> nat \<Rightarrow> rat list list \<Rightarrow> (nat \<times> nat) list" where
  "linear_sum_assignment m n C =
     arg_min_list (total_cost C) (assignments (min m n) [0..<m] [0..<n])"

section \<open>\<open>compare_trace\<close>\<close>

text \<open>A \<open>for\<close> loop that collects one value per element and stops at the first exception.\<close>

fun for_each :: "('a \<Rightarrow> error + 'b) \<Rightarrow> 'a list \<Rightarrow> error + 'b list" where
  "for_each f [] = Inr []"
| "for_each f (x # xs) =
     (case f x of
        Inl e \<Rightarrow> Inl e
      | Inr y \<Rightarrow> (case for_each f xs of Inl e \<Rightarrow> Inl e | Inr ys \<Rightarrow> Inr (y # ys)))"

definition thread_of :: "trace_obj \<Rightarrow> int \<Rightarrow> error + thread_rec" where
  "thread_of obj tid =
     (case map_of (thread_info obj) tid of None \<Rightarrow> Inl KeyError | Some th \<Rightarrow> Inr th)"

text \<open>One cell of the matrix: the negated similarity of the two threads' parsed traces.\<close>

definition sim_entry :: "trace_obj \<Rightarrow> trace_obj \<Rightarrow> int \<Rightarrow> int \<Rightarrow> error + rat" where
  "sim_entry real_device_trace_obj emulator_trace_obj tid_r tid_e =
     (case thread_of real_device_trace_obj tid_r of
        Inl e \<Rightarrow> Inl e
      | Inr th_r \<Rightarrow>
          (case thread_of emulator_trace_obj tid_e of
             Inl e \<Rightarrow> Inl e
           | Inr th_e \<Rightarrow>
               (case trace_similarity (name th_r) (trace th_r) (name th_e) (trace th_e) of
                  Inl e \<Rightarrow> Inl e
                | Inr s \<Rightarrow> Inr (- s))))"

definition build_sim_matrix ::
  "trace_obj \<Rightarrow> trace_obj \<Rightarrow> int list \<Rightarrow> int list \<Rightarrow> error + rat list list" where
  "build_sim_matrix real_device_trace_obj emulator_trace_obj r_tid_list e_tid_list =
     for_each
       (\<lambda>tid_r. for_each (sim_entry real_device_trace_obj emulator_trace_obj tid_r) e_tid_list)
       r_tid_list"

text \<open>The lockstep \<open>while\<close> loop; it returns the final \<open>trace_idx\<close>.\<close>

function diverge_loop :: "string list \<Rightarrow> string list \<Rightarrow> nat \<Rightarrow> nat \<Rightarrow> nat" where
  "diverge_loop real_device_trace emulator_trace max_len trace_idx =
     (if trace_idx < max_len then
        (if real_device_trace ! trace_idx \<noteq> emulator_trace ! trace_idx then trace_idx
         else diverge_loop real_device_trace emulator_trace max_len (trace_idx + 1))
      else trace_idx)"
  by pat_completeness auto
termination
  by (relation "measure (\<lambda>(a, b, m, i). m - i)") auto

declare diverge_loop.simps [simp del]

text \<open>A Python slice \<open>xs[lo:hi]\<close> with both bounds non-negative.\<close>

definition slice :: "'a list \<Rightarrow> nat \<Rightarrow> nat \<Rightarrow> 'a list" where
  "slice xs lo hi = drop lo (take hi xs)"

text \<open>
  What the body of the \<open>for x, y in zip(r_idx, e_idx)\<close> loop does with the two filtered
  traces: nothing when they are not aligned, one record otherwise.
\<close>

definition scan_pair ::
  "int \<Rightarrow> string \<Rightarrow> int \<Rightarrow> string \<Rightarrow> rat \<Rightarrow> string list \<Rightarrow> string list
     \<Rightarrow> comparison_record option" where
  "scan_pair rid rname eid ename sim real_device_trace emulator_trace =
     (let trace_aligned =
            (length real_device_trace = 0 \<or> length emulator_trace = 0
             \<or> real_device_trace ! 0 = emulator_trace ! 0)
      in if trace_aligned then
           (let max_common_len = min (length real_device_trace) (length emulator_trace);
                trace_idx = diverge_loop real_device_trace emulator_trace max_common_len 0
            in Some
                 \<lparr>real_id = rid,
                  real_name = rname,
                  real_trace =
                    (if trace_idx < max_common_len
                     then Some (slice real_device_trace
                                  (nat (max 0 (int trace_idx - 1))) (trace_idx + 1))
                     else None),
                  emu_id = eid,
                  emu_name = ename,
                  e_trace =
                    (if trace_idx < max_common_len
                     then Some (slice emulator_trace
                                  (nat (max 0 (int trace_idx - 1))) (trace_idx + 1))
                     else None),
                  sim_cov = sim,
                  max_common_len = max_common_len,
                  diverge_idx = trace_idx,
                  sim_max_common =
                    (if max_common_len \<noteq> 0
                     then of_nat trace_idx / of_nat max_common_len
                     else 1)\<rparr>)
         else None)"

text \<open>The loop body for one pair \<open>(x, y)\<close> of the assignment.\<close>

definition compare_pair ::
  "trace_obj \<Rightarrow> trace_obj \<Rightarrow> int list \<Rightarrow> int list \<Rightarrow> rat list list \<Rightarrow> nat \<times> nat
     \<Rightarrow> error + comparison_record option" where
  "compare_pair real_device_trace_obj emulator_trace_obj r_tid_list e_tid_list sim_matrix p =
     (case p of (x, y) \<Rightarrow>
        if \<not> (x < length r_tid_list \<and> y < length e_tid_list) then Inl IndexError
        else
          (case thread_of real_device_trace_obj (r_tid_list ! x) of
             Inl e \<Rightarrow> Inl e
           | Inr th_r \<Rightarrow>
               (case clean_trace (trace th_r) of
                  Inl e \<Rightarrow> Inl e
                | Inr real_device_trace \<Rightarrow>
                    (case thread_of emulator_trace_obj (e_tid_list ! y) of
                       Inl e \<Rightarrow> Inl e
                     | Inr th_e \<Rightarrow>
                         (case clean_trace (trace th_e) of
                            Inl e \<Rightarrow> Inl e
                          | Inr emulator_trace \<Rightarrow>
                              Inr (scan_pair (r_tid_list ! x) (name th_r)
                                     (e_tid_list ! y) (name th_e)
                                     (- (sim_matrix ! x ! y))
                                     real_device_trace emulator_trace))))))"

fun compare_pairs ::
  "(nat \<times> nat \<Rightarrow> error + comparison_record option) \<Rightarrow> (nat \<times> nat) list
     \<Rightarrow> error + comparison_record list" where
  "compare_pairs body [] = Inr []"
| "compare_pairs body (p # ps) =
     (case body p of
        Inl e \<Rightarrow> Inl e
      | Inr ro \<Rightarrow>
          (case compare_pairs body ps of
             Inl e \<Rightarrow> Inl e
           | Inr rs \<Rightarrow> Inr (case ro of None \<Rightarrow> rs | Some r \<Rightarrow> r # rs)))"

text \<open>Lines 122 to 162: from the two parsed documents to \<open>trace_similarity_list\<close>.\<close>

definition compare_trace_objs ::
  "trace_obj \<Rightarrow> trace_obj \<Rightarrow> error + comparison_record list" where
  "compare_trace_objs real_device_trace_obj emulator_trace_obj =
     (let r_tid_list = sort (map fst (thread_info real_device_trace_obj));
          e_tid_list = sort (map fst (thread_info emulator_trace_obj))
      in case build_sim_matrix real_device_trace_obj emulator_trace_obj r_tid_list e_tid_list of
           Inl e \<Rightarrow> Inl e
         | Inr sim_matrix \<Rightarrow>
             compare_pairs
               (compare_pair real_device_trace_obj emulator_trace_obj
                  r_tid_list e_tid_list sim_matrix)
               (linear_sum_assignment (length r_tid_list) (length e_tid_list) sim_matrix))"

text \<open>
  \<open>compare_trace\<close> on the two decoder outputs; the list it returns is what the source
  writes to \<open>output_file_path\<close> as JSON.
\<close>

definition compare_trace ::
  "decoded_trace \<Rightarrow> decoded_trace \<Rightarrow> error + comparison_record list" where
  "compare_trace real_device_trace_str emulator_trace_str =
     (case process_trace real_device_trace_str of
        Inl e \<Rightarrow> Inl e
      | Inr real_device_trace_obj \<Rightarrow>
          (case process_trace emulator_trace_str of
             Inl e \<Rightarrow> Inl e
           | Inr emulator_trace_obj \<Rightarrow>
               compare_trace_objs real_device_trace_obj emulator_trace_obj))"

section \<open>Matchings\<close>

text \<open>
  A one-to-one matching over \<open>m\<close> device threads and \<open>n\<close> emulator threads, as a list of
  (row, column) pairs, and its total similarity: the similarity of a pair is the negated
  matrix entry, which is what \<open>compare_trace\<close> reports as \<open>sim_cov\<close>.
\<close>

definition one_to_one :: "nat \<Rightarrow> nat \<Rightarrow> (nat \<times> nat) list \<Rightarrow> bool" where
  "one_to_one m n a \<longleftrightarrow>
     distinct (map fst a) \<and> distinct (map snd a) \<and> (\<forall>(i, j) \<in> set a. i < m \<and> j < n)"

definition total_similarity :: "rat list list \<Rightarrow> (nat \<times> nat) list \<Rightarrow> rat" where
  "total_similarity sim_matrix a = sum_list (map (\<lambda>(x, y). - (sim_matrix ! x ! y)) a)"

section \<open>Concrete traces used as witnesses and counterexamples\<close>

definition unaligned_device :: decoded_trace where
  "unaligned_device =
     \<lparr>dt_version = 3, dt_threads = [(1, ''main'')],
      dt_items =
        [\<lparr>li_tid = 1, li_action = ''ent'', li_marks = '''', li_depth = ''0'',
          li_method = ''com.app.Main.run'', li_field5 = ''()V'', li_field6 = ''Main.java''\<rparr>,
         \<lparr>li_tid = 1, li_action = ''ent'', li_marks = '''', li_depth = ''1'',
          li_method = ''com.app.Main.init'', li_field5 = ''()V'', li_field6 = ''Main.java''\<rparr>]\<rparr>"

definition unaligned_emulator :: decoded_trace where
  "unaligned_emulator =
     \<lparr>dt_version = 3, dt_threads = [(7, ''main'')],
      dt_items =
        [\<lparr>li_tid = 7, li_action = ''ent'', li_marks = '''', li_depth = ''0'',
          li_method = ''com.app.Main.check'', li_field5 = ''()Z'', li_field6 = ''Main.java''\<rparr>,
         \<lparr>li_tid = 7, li_action = ''ent'', li_marks = '''', li_depth = ''1'',
          li_method = ''com.app.Main.init'', li_field5 = ''()V'', li_field6 = ''Main.java''\<rparr>]\<rparr>"

definition noisy_device :: decoded_trace where
  "noisy_device =
     \<lparr>dt_version = 3, dt_threads = [(1, ''main'')],
      dt_items =
        [\<lparr>li_tid = 1, li_action = ''ent'', li_marks = '''', li_depth = ''0'',
          li_method = ''com.app.Main.run'', li_field5 = ''()V'', li_field6 = ''Main.java''\<rparr>,
         \<lparr>li_tid = 1, li_action = ''ent'', li_marks = '''', li_depth = ''1'',
          li_method = ''java.lang.String.length'', li_field5 = ''()I'',
          li_field6 = ''String.java''\<rparr>]\<rparr>"

definition noisy_emulator :: decoded_trace where
  "noisy_emulator =
     \<lparr>dt_version = 3, dt_threads = [(7, ''main'')],
      dt_items =
        [\<lparr>li_tid = 7, li_action = ''ent'', li_marks = '''', li_depth = ''0'',
          li_method = ''com.app.Main.run'', li_field5 = ''()V'', li_field6 = ''Main.java''\<rparr>]\<rparr>"

definition nameless_device :: decoded_trace where
  "nameless_device =
     \<lparr>dt_version = 3, dt_threads = [(1, '''')],
      dt_items =
        [\<lparr>li_tid = 1, li_action = ''ent'', li_marks = '''', li_depth = ''0'',
          li_method = ''com.app.Main.run'', li_field5 = ''()V'', li_field6 = ''Main.java''\<rparr>]\<rparr>"

definition nameless_emulator :: decoded_trace where
  "nameless_emulator =
     \<lparr>dt_version = 3, dt_threads = [(7, '''')],
      dt_items =
        [\<lparr>li_tid = 7, li_action = ''ent'', li_marks = '''', li_depth = ''0'',
          li_method = ''com.app.Main.run'', li_field5 = ''()V'', li_field6 = ''Main.java''\<rparr>]\<rparr>"

definition framework_device :: decoded_trace where
  "framework_device =
     \<lparr>dt_version = 3, dt_threads = [(1, ''main''), (2, ''Binder_1'')],
      dt_items =
        [\<lparr>li_tid = 1, li_action = ''ent'', li_marks = '''', li_depth = ''0'',
          li_method = ''java.lang.Object.<init>'', li_field5 = ''()V'',
          li_field6 = ''Object.java''\<rparr>]\<rparr>"

definition framework_emulator :: decoded_trace where
  "framework_emulator =
     \<lparr>dt_version = 3, dt_threads = [(7, ''main'')],
      dt_items =
        [\<lparr>li_tid = 7, li_action = ''ent'', li_marks = '''', li_depth = ''0'',
          li_method = ''com.app.Main.run'', li_field5 = ''()V'', li_field6 = ''Main.java''\<rparr>]\<rparr>"

section \<open>The lockstep loop\<close>

lemma diverge_loop_ge: "i \<le> diverge_loop A B m i"
proof (induction A B m i rule: diverge_loop.induct)
  case (1 A B m i)
  show ?case
  proof (cases "i < m \<and> A ! i = B ! i")
    case True
    then have "diverge_loop A B m i = diverge_loop A B m (i + 1)"
      by (simp add: diverge_loop.simps [of A B m i])
    moreover have "i + 1 \<le> diverge_loop A B m (i + 1)"
      using True "1.IH" by simp
    ultimately show ?thesis by simp
  next
    case False
    then have "diverge_loop A B m i = i"
      by (auto simp add: diverge_loop.simps [of A B m i])
    then show ?thesis by simp
  qed
qed

lemma diverge_loop_le: "i \<le> m \<Longrightarrow> diverge_loop A B m i \<le> m"
proof (induction A B m i rule: diverge_loop.induct)
  case (1 A B m i)
  show ?case
  proof (cases "i < m \<and> A ! i = B ! i")
    case True
    then have "diverge_loop A B m i = diverge_loop A B m (i + 1)"
      by (simp add: diverge_loop.simps [of A B m i])
    moreover have "diverge_loop A B m (i + 1) \<le> m"
      using True "1.IH" by simp
    ultimately show ?thesis by simp
  next
    case False
    then have "diverge_loop A B m i = i"
      by (auto simp add: diverge_loop.simps [of A B m i])
    then show ?thesis using "1.prems" by simp
  qed
qed

lemma diverge_loop_agree:
  "i \<le> j \<Longrightarrow> j < diverge_loop A B m i \<Longrightarrow> A ! j = B ! j"
proof (induction A B m i rule: diverge_loop.induct)
  case (1 A B m i)
  show ?case
  proof (cases "i < m \<and> A ! i = B ! i")
    case True
    then have eq: "diverge_loop A B m i = diverge_loop A B m (i + 1)"
      by (simp add: diverge_loop.simps [of A B m i])
    show ?thesis
    proof (cases "j = i")
      case True
      with \<open>i < m \<and> A ! i = B ! i\<close> show ?thesis by simp
    next
      case False
      with "1.prems" have "i + 1 \<le> j" by simp
      moreover have "j < diverge_loop A B m (i + 1)" using "1.prems" eq by simp
      ultimately show ?thesis using True "1.IH" by simp
    qed
  next
    case False
    then have "diverge_loop A B m i = i"
      by (auto simp add: diverge_loop.simps [of A B m i])
    with "1.prems" show ?thesis by simp
  qed
qed

lemma diverge_loop_differ:
  "diverge_loop A B m i < m \<Longrightarrow> A ! diverge_loop A B m i \<noteq> B ! diverge_loop A B m i"
proof (induction A B m i rule: diverge_loop.induct)
  case (1 A B m i)
  show ?case
  proof (cases "i < m \<and> A ! i = B ! i")
    case True
    then have eq: "diverge_loop A B m i = diverge_loop A B m (i + 1)"
      by (simp add: diverge_loop.simps [of A B m i])
    then show ?thesis using True "1.IH" "1.prems" by simp
  next
    case False
    then have eq: "diverge_loop A B m i = i"
      by (auto simp add: diverge_loop.simps [of A B m i])
    with "1.prems" have "i < m" by simp
    with False have "A ! i \<noteq> B ! i" by simp
    with eq show ?thesis by simp
  qed
qed

lemma diverge_loop_same: "i \<le> length A \<Longrightarrow> diverge_loop A A (length A) i = length A"
proof -
  assume le: "i \<le> length A"
  have "\<not> diverge_loop A A (length A) i < length A"
    using diverge_loop_differ [of A A "length A" i] by blast
  moreover have "diverge_loop A A (length A) i \<le> length A"
    using le by (rule diverge_loop_le)
  ultimately show ?thesis by simp
qed

section \<open>The record of one scanned pair\<close>

lemma scan_pair_None:
  "scan_pair rid rn eid en s A B = None \<longleftrightarrow> (A \<noteq> [] \<and> B \<noteq> [] \<and> A ! 0 \<noteq> B ! 0)"
  by (simp add: scan_pair_def Let_def)

lemma scan_pair_fields:
  assumes "scan_pair rid rn eid en s A B = Some r"
  shows "real_id r = rid" and "real_name r = rn" and "emu_id r = eid" and "emu_name r = en"
    and "sim_cov r = s"
    and "max_common_len r = min (length A) (length B)"
    and "diverge_idx r = diverge_loop A B (min (length A) (length B)) 0"
    and "real_trace r =
          (if diverge_idx r < max_common_len r
           then Some (slice A (nat (max 0 (int (diverge_idx r) - 1))) (diverge_idx r + 1))
           else None)"
    and "e_trace r =
          (if diverge_idx r < max_common_len r
           then Some (slice B (nat (max 0 (int (diverge_idx r) - 1))) (diverge_idx r + 1))
           else None)"
    and "sim_max_common r =
          (if max_common_len r \<noteq> 0
           then of_nat (diverge_idx r) / of_nat (max_common_len r)
           else 1)"
proof -
  have al: "A = [] \<or> B = [] \<or> A ! 0 = B ! 0"
    using assms scan_pair_None [of rid rn eid en s A B] by auto
  define m where "m = min (length A) (length B)"
  define i where "i = diverge_loop A B m 0"
  have r: "r =
     \<lparr>real_id = rid, real_name = rn,
      real_trace = (if i < m then Some (slice A (nat (max 0 (int i - 1))) (i + 1)) else None),
      emu_id = eid, emu_name = en,
      e_trace = (if i < m then Some (slice B (nat (max 0 (int i - 1))) (i + 1)) else None),
      sim_cov = s, max_common_len = m, diverge_idx = i,
      sim_max_common = (if m \<noteq> 0 then of_nat i / of_nat m else 1)\<rparr>"
    using assms [symmetric] al unfolding scan_pair_def Let_def i_def m_def
    by (simp only: length_0_conv if_True option.inject)
  show "real_id r = rid" and "real_name r = rn" and "emu_id r = eid" and "emu_name r = en"
    and "sim_cov r = s"
    by (simp_all add: r)
  show "max_common_len r = min (length A) (length B)" by (simp add: r m_def)
  show "diverge_idx r = diverge_loop A B (min (length A) (length B)) 0"
    by (simp add: r i_def m_def)
  show "real_trace r =
          (if diverge_idx r < max_common_len r
           then Some (slice A (nat (max 0 (int (diverge_idx r) - 1))) (diverge_idx r + 1))
           else None)"
    by (simp add: r)
  show "e_trace r =
          (if diverge_idx r < max_common_len r
           then Some (slice B (nat (max 0 (int (diverge_idx r) - 1))) (diverge_idx r + 1))
           else None)"
    by (simp add: r)
  show "sim_max_common r =
          (if max_common_len r \<noteq> 0
           then of_nat (diverge_idx r) / of_nat (max_common_len r)
           else 1)"
    by (simp add: r)
qed

lemma scan_pair_idx_le:
  assumes "scan_pair rid rn eid en s A B = Some r"
  shows "diverge_idx r \<le> max_common_len r"
  using scan_pair_fields(6,7) [OF assms] diverge_loop_le [of 0 "min (length A) (length B)" A B]
  by simp

lemma slice_context:
  assumes "i < length xs"
  shows "slice xs (nat (max 0 (int i - 1))) (i + 1) =
           (if i = 0 then [xs ! 0] else [xs ! (i - 1), xs ! i])"
proof (cases i)
  case 0
  with assms show ?thesis
    by (cases xs) (simp_all add: slice_def)
next
  case (Suc k)
  with assms have k: "k < length xs" and sk: "Suc k < length xs" by simp_all
  have "take (Suc (Suc k)) xs = take k xs @ [xs ! k, xs ! Suc k]"
    using k sk by (simp add: take_Suc_conv_app_nth)
  moreover have "length (take k xs) = k" using k by simp
  ultimately have "drop k (take (Suc (Suc k)) xs) = [xs ! k, xs ! Suc k]"
    by simp
  moreover have "nat (max 0 (int i - 1)) = k" using Suc by simp
  ultimately show ?thesis using Suc by (simp add: slice_def)
qed

lemma scan_pair_idx:
  assumes sp: "scan_pair rid rn eid en s A B = Some r"
  shows "diverge_idx r \<le> min (length A) (length B)"
    and "\<And>j. j < diverge_idx r \<Longrightarrow> A ! j = B ! j"
    and "diverge_idx r < min (length A) (length B) \<Longrightarrow> A ! diverge_idx r \<noteq> B ! diverge_idx r"
proof -
  define m where "m = min (length A) (length B)"
  have idx: "diverge_idx r = diverge_loop A B m 0"
    using scan_pair_fields(7) [OF sp] by (simp add: m_def)
  have "diverge_loop A B m 0 \<le> m" by (rule diverge_loop_le) simp
  then show "diverge_idx r \<le> min (length A) (length B)" by (simp add: idx m_def)
  show "A ! j = B ! j" if "j < diverge_idx r" for j
    using that diverge_loop_agree [of 0 j A B m] by (simp add: idx)
  show "A ! diverge_idx r \<noteq> B ! diverge_idx r" if "diverge_idx r < min (length A) (length B)"
    using that diverge_loop_differ [of A B m 0] by (simp add: idx m_def)
qed

section \<open>Claims\<close>

text \<open>
  C3.  For every scanned pair of filtered sequences \<open>A\<close> (device) and \<open>B\<close> (emulator), the
  reported divergence index is the least index below \<open>min (length A) (length B)\<close> at which
  the two sequences differ; when they agree on the whole common prefix the index equals the
  common length and both contexts are absent.  For the sequences of the spec's example the
  divergence index is 1.
\<close>

theorem divergence_index_is_first_mismatch:
  "(\<forall>rid rn eid en s A B r.
      scan_pair rid rn eid en s A B = Some r \<longrightarrow>
        ((\<exists>i < min (length A) (length B). A ! i \<noteq> B ! i) \<longrightarrow>
           diverge_idx r < min (length A) (length B)
           \<and> A ! diverge_idx r \<noteq> B ! diverge_idx r
           \<and> (\<forall>j < diverge_idx r. A ! j = B ! j))
        \<and> ((\<forall>i < min (length A) (length B). A ! i = B ! i) \<longrightarrow>
             diverge_idx r = min (length A) (length B)
             \<and> real_trace r = None \<and> e_trace r = None))
   \<and> (\<forall>rid rn eid en s.
        map_option diverge_idx
          (scan_pair rid rn eid en s
             [''ent Foo.bar'', ''ent Foo.baz'', ''xit Foo.baz'']
             [''ent Foo.bar'', ''ent Foo.qux'', ''xit Foo.qux'']) = Some 1)"
proof -
  have general:
    "((\<exists>i < min (length A) (length B). A ! i \<noteq> B ! i) \<longrightarrow>
           diverge_idx r < min (length A) (length B)
           \<and> A ! diverge_idx r \<noteq> B ! diverge_idx r
           \<and> (\<forall>j < diverge_idx r. A ! j = B ! j))
        \<and> ((\<forall>i < min (length A) (length B). A ! i = B ! i) \<longrightarrow>
             diverge_idx r = min (length A) (length B)
             \<and> real_trace r = None \<and> e_trace r = None)"
    if sp: "scan_pair rid rn eid en s A B = Some r" for rid rn eid en s A B r
  proof -
    define m where "m = min (length A) (length B)"
    note le = scan_pair_idx(1) [OF sp, folded m_def]
    note agree = scan_pair_idx(2) [OF sp]
    note differ = scan_pair_idx(3) [OF sp, folded m_def]
    have mc: "max_common_len r = m" using scan_pair_fields(6) [OF sp] by (simp add: m_def)
    have first: "diverge_idx r < m" if "i < m" "A ! i \<noteq> B ! i" for i
    proof -
      from that(2) agree have "\<not> i < diverge_idx r" by blast
      with that(1) show ?thesis by simp
    qed
    have last: "diverge_idx r = m" if "\<forall>i < m. A ! i = B ! i"
    proof -
      from that differ have "\<not> diverge_idx r < m" by blast
      with le show ?thesis by simp
    qed
    have none: "real_trace r = None \<and> e_trace r = None" if "diverge_idx r = m"
      using that scan_pair_fields(8,9) [OF sp] mc by simp
    show ?thesis
      using first last none agree differ unfolding m_def by blast
  qed
  have example:
    "map_option diverge_idx
          (scan_pair rid rn eid en s
             [''ent Foo.bar'', ''ent Foo.baz'', ''xit Foo.baz'']
             [''ent Foo.bar'', ''ent Foo.qux'', ''xit Foo.qux'']) = Some 1"
    for rid rn eid en s
    by (simp add: scan_pair_def Let_def diverge_loop.simps)
  from general example show ?thesis by blast
qed

theorem divergence_index_is_first_mismatch_witness:
  "(\<exists>r. scan_pair 1 ''main'' 7 ''main'' 1
          [''ent Foo.bar a b'', ''ent Foo.baz a b''] [''ent Foo.bar a b'', ''ent Foo.qux a b'']
        = Some r
      \<and> diverge_idx r = 1
      \<and> [''ent Foo.bar a b'', ''ent Foo.baz a b''] ! diverge_idx r
          \<noteq> [''ent Foo.bar a b'', ''ent Foo.qux a b''] ! diverge_idx r)
   \<and> (\<exists>r. scan_pair 1 ''main'' 7 ''main'' 1 [''ent Foo.bar a b''] [''ent Foo.bar a b''] = Some r
      \<and> diverge_idx r = 1 \<and> real_trace r = None \<and> e_trace r = None)"
proof -
  let ?A = "[''ent Foo.bar a b'', ''ent Foo.baz a b'']"
  let ?B = "[''ent Foo.bar a b'', ''ent Foo.qux a b'']"
  let ?C = "[''ent Foo.bar a b'']"
  obtain r where r: "scan_pair 1 ''main'' 7 ''main'' 1 ?A ?B = Some r"
    by (simp add: scan_pair_def Let_def)
  obtain q where q: "scan_pair 1 ''main'' 7 ''main'' 1 ?C ?C = Some q"
    by (simp add: scan_pair_def Let_def)
  have mismatch: "\<exists>i < min (length ?A) (length ?B). ?A ! i \<noteq> ?B ! i"
    by (rule exI [of _ 1]) simp
  have same: "\<forall>i < min (length ?C) (length ?C). ?C ! i = ?C ! i"
    by simp
  note gen = divergence_index_is_first_mismatch [THEN conjunct1, rule_format]
  have r1: "diverge_idx r < min (length ?A) (length ?B)"
    and r2: "?A ! diverge_idx r \<noteq> ?B ! diverge_idx r"
    and r3: "\<forall>j < diverge_idx r. ?A ! j = ?B ! j"
    using gen [OF r, THEN conjunct1] mismatch by blast+
  have "diverge_idx r \<noteq> 0" using r2 by (cases "diverge_idx r") simp_all
  with r1 have "diverge_idx r = 1" by simp
  moreover have "diverge_idx q = 1 \<and> real_trace q = None \<and> e_trace q = None"
    using gen [OF q, THEN conjunct2] same by simp
  ultimately show ?thesis using r r2 q by blast
qed

lemma scan_pair_same:
  "\<exists>r. scan_pair rid rn eid en s A A = Some r \<and> diverge_idx r = length A
        \<and> max_common_len r = length A"
proof -
  have "scan_pair rid rn eid en s A A \<noteq> None"
    by (simp add: scan_pair_None)
  then obtain r where r: "scan_pair rid rn eid en s A A = Some r" by blast
  have "diverge_idx r = length A"
    using scan_pair_fields(7) [OF r] diverge_loop_same [of 0 A] by simp
  moreover have "max_common_len r = length A"
    using scan_pair_fields(6) [OF r] by simp
  ultimately show ?thesis using r by blast
qed

lemma scan_pair_contexts:
  assumes sp: "scan_pair rid rn eid en s A B = Some r"
  shows "diverge_idx r < max_common_len r \<Longrightarrow>
           real_trace r = Some (if diverge_idx r = 0 then [A ! 0]
                                else [A ! (diverge_idx r - 1), A ! diverge_idx r])"
    and "diverge_idx r < max_common_len r \<Longrightarrow>
           e_trace r = Some (if diverge_idx r = 0 then [B ! 0]
                             else [B ! (diverge_idx r - 1), B ! diverge_idx r])"
    and "\<not> diverge_idx r < max_common_len r \<Longrightarrow> real_trace r = None \<and> e_trace r = None"
proof -
  have mc: "max_common_len r = min (length A) (length B)"
    by (rule scan_pair_fields(6) [OF sp])
  show "real_trace r = Some (if diverge_idx r = 0 then [A ! 0]
                                else [A ! (diverge_idx r - 1), A ! diverge_idx r])"
    if "diverge_idx r < max_common_len r"
  proof -
    from that mc have "diverge_idx r < length A" by simp
    then show ?thesis
      using scan_pair_fields(8) [OF sp] that slice_context [of "diverge_idx r" A] by simp
  qed
  show "e_trace r = Some (if diverge_idx r = 0 then [B ! 0]
                             else [B ! (diverge_idx r - 1), B ! diverge_idx r])"
    if "diverge_idx r < max_common_len r"
  proof -
    from that mc have "diverge_idx r < length B" by simp
    then show ?thesis
      using scan_pair_fields(9) [OF sp] that slice_context [of "diverge_idx r" B] by simp
  qed
  show "real_trace r = None \<and> e_trace r = None" if "\<not> diverge_idx r < max_common_len r"
    using that scan_pair_fields(8,9) [OF sp] by simp
qed

lemma scan_pair_fraction_one:
  assumes sp: "scan_pair rid rn eid en s A B = Some r"
  shows "sim_max_common r = 1 \<longleftrightarrow> diverge_idx r = max_common_len r"
proof (cases "max_common_len r = 0")
  case True
  moreover have "diverge_idx r \<le> max_common_len r"
    using scan_pair_idx(1) [OF sp] scan_pair_fields(6) [OF sp] by simp
  ultimately show ?thesis using scan_pair_fields(10) [OF sp] by simp
next
  case False
  then show ?thesis using scan_pair_fields(10) [OF sp] by auto
qed

text \<open>
  C5.  Whenever a divergence index \<open>i\<close> is found for a scanned pair (\<open>i\<close> below
  \<open>max_common_len\<close>), the device-side context is the slice \<open>[max(0, i-1), i+1)\<close> of the
  device sequence and the emulator-side context is the same slice of the emulator sequence:
  the preceding event, when there is one, and the diverging event.  When no divergence is
  found within the common prefix, both contexts are absent.
\<close>

theorem context_window_around_divergence:
  "scan_pair rid rn eid en s A B = Some r \<Longrightarrow>
     max_common_len r = min (length A) (length B)
     \<and> diverge_idx r \<le> max_common_len r
     \<and> (diverge_idx r < max_common_len r \<longrightarrow>
          A ! diverge_idx r \<noteq> B ! diverge_idx r
          \<and> real_trace r
              = Some (slice A (nat (max 0 (int (diverge_idx r) - 1))) (diverge_idx r + 1))
          \<and> e_trace r
              = Some (slice B (nat (max 0 (int (diverge_idx r) - 1))) (diverge_idx r + 1))
          \<and> real_trace r
              = Some (if diverge_idx r = 0 then [A ! 0]
                      else [A ! (diverge_idx r - 1), A ! diverge_idx r])
          \<and> e_trace r
              = Some (if diverge_idx r = 0 then [B ! 0]
                      else [B ! (diverge_idx r - 1), B ! diverge_idx r]))
     \<and> (diverge_idx r = max_common_len r \<longrightarrow> real_trace r = None \<and> e_trace r = None)"
proof -
  assume sp: "scan_pair rid rn eid en s A B = Some r"
  have mc: "max_common_len r = min (length A) (length B)"
    by (rule scan_pair_fields(6) [OF sp])
  have le: "diverge_idx r \<le> max_common_len r"
    using scan_pair_idx(1) [OF sp] mc by simp
  have differ: "A ! diverge_idx r \<noteq> B ! diverge_idx r" if "diverge_idx r < max_common_len r"
    using that scan_pair_idx(3) [OF sp] mc by simp
  have sl: "real_trace r
              = Some (slice A (nat (max 0 (int (diverge_idx r) - 1))) (diverge_idx r + 1))
          \<and> e_trace r
              = Some (slice B (nat (max 0 (int (diverge_idx r) - 1))) (diverge_idx r + 1))"
    if "diverge_idx r < max_common_len r"
    using that scan_pair_fields(8,9) [OF sp] by simp
  have none: "real_trace r = None \<and> e_trace r = None" if "diverge_idx r = max_common_len r"
    using that scan_pair_contexts(3) [OF sp] by simp
  show ?thesis
    using mc le differ sl none scan_pair_contexts(1,2) [OF sp] by blast
qed

theorem context_window_around_divergence_witness:
  "scan_pair 1 ''main'' 7 ''main'' 1
       [''ent Foo.bar a b'', ''ent Foo.baz a b'', ''xit Foo.baz a b'']
       [''ent Foo.bar a b'', ''ent Foo.qux a b'']
     = Some \<lparr>real_id = 1, real_name = ''main'',
             real_trace = Some [''ent Foo.bar a b'', ''ent Foo.baz a b''],
             emu_id = 7, emu_name = ''main'',
             e_trace = Some [''ent Foo.bar a b'', ''ent Foo.qux a b''],
             sim_cov = 1, max_common_len = 2, diverge_idx = 1, sim_max_common = 1 / 2\<rparr>
   \<and> slice [''ent Foo.bar a b'', ''ent Foo.baz a b'', ''xit Foo.baz a b''] (nat (max 0 (int 1 - 1))) (1 + 1)
       = [''ent Foo.bar a b'', ''ent Foo.baz a b'']
   \<and> slice [''ent Foo.bar a b'', ''ent Foo.qux a b''] (nat (max 0 (int 1 - 1))) (1 + 1)
       = [''ent Foo.bar a b'', ''ent Foo.qux a b'']"
proof -
  let ?A = "[''ent Foo.bar a b'', ''ent Foo.baz a b'', ''xit Foo.baz a b'']"
  let ?B = "[''ent Foo.bar a b'', ''ent Foo.qux a b'']"
  let ?r = "\<lparr>real_id = 1, real_name = ''main'',
             real_trace = Some [''ent Foo.bar a b'', ''ent Foo.baz a b''],
             emu_id = 7, emu_name = ''main'',
             e_trace = Some [''ent Foo.bar a b'', ''ent Foo.qux a b''],
             sim_cov = 1, max_common_len = 2, diverge_idx = 1, sim_max_common = 1 / 2\<rparr>"
  have h: "scan_pair 1 ''main'' 7 ''main'' 1 ?A ?B = Some ?r"
    by (simp add: scan_pair_def Let_def diverge_loop.simps slice_def)
  from context_window_around_divergence [OF h] h show ?thesis by simp
qed

text \<open>
  C6.  For every scanned pair, \<open>sim_max_common\<close> (the fraction matched) is
  \<open>diverge_idx / max_common_len\<close> when \<open>max_common_len\<close> is positive and 1 when it is 0;
  two identical filtered sequences give no divergence and a fraction of 1.
\<close>

theorem fraction_matched_ratio:
  "(\<forall>rid rn eid en s A B r.
      scan_pair rid rn eid en s A B = Some r \<longrightarrow>
        max_common_len r = min (length A) (length B)
        \<and> (max_common_len r > 0 \<longrightarrow>
             sim_max_common r = of_nat (diverge_idx r) / of_nat (max_common_len r))
        \<and> (max_common_len r = 0 \<longrightarrow> sim_max_common r = 1))
   \<and> (\<forall>rid rn eid en s A.
        \<exists>r. scan_pair rid rn eid en s A A = Some r
           \<and> diverge_idx r = max_common_len r
           \<and> real_trace r = None \<and> e_trace r = None
           \<and> sim_max_common r = 1)"
proof -
  have ratio:
    "max_common_len r = min (length A) (length B)
        \<and> (max_common_len r > 0 \<longrightarrow>
             sim_max_common r = of_nat (diverge_idx r) / of_nat (max_common_len r))
        \<and> (max_common_len r = 0 \<longrightarrow> sim_max_common r = 1)"
    if sp: "scan_pair rid rn eid en s A B = Some r" for rid rn eid en s A B r
    using scan_pair_fields(6,10) [OF sp] by simp
  have same:
    "\<exists>r. scan_pair rid rn eid en s A A = Some r
           \<and> diverge_idx r = max_common_len r
           \<and> real_trace r = None \<and> e_trace r = None
           \<and> sim_max_common r = 1"
    for rid rn eid en s A
  proof -
    obtain r where r: "scan_pair rid rn eid en s A A = Some r"
      and eq: "diverge_idx r = length A" "max_common_len r = length A"
      using scan_pair_same [of rid rn eid en s A] by blast
    have "real_trace r = None \<and> e_trace r = None"
      using scan_pair_contexts(3) [OF r] eq by simp
    moreover have "sim_max_common r = 1"
      using scan_pair_fraction_one [OF r] eq by simp
    ultimately show ?thesis using r eq by auto
  qed
  from ratio same show ?thesis by blast
qed

theorem fraction_matched_ratio_witness:
  "scan_pair 1 ''main'' 7 ''main'' 1
       [''ent Foo.bar a b'', ''ent Foo.baz a b'', ''xit Foo.baz a b'']
       [''ent Foo.bar a b'', ''ent Foo.qux a b'']
     = Some \<lparr>real_id = 1, real_name = ''main'',
             real_trace = Some [''ent Foo.bar a b'', ''ent Foo.baz a b''],
             emu_id = 7, emu_name = ''main'',
             e_trace = Some [''ent Foo.bar a b'', ''ent Foo.qux a b''],
             sim_cov = 1, max_common_len = 2, diverge_idx = 1, sim_max_common = 1 / 2\<rparr>
   \<and> (0::nat) < 2 \<and> (1 / 2 :: rat) = of_nat 1 / of_nat 2
   \<and> (\<exists>r. scan_pair 1 ''main'' 7 ''main'' 1 [] [''ent Foo.bar a b''] = Some r
          \<and> max_common_len r = 0 \<and> sim_max_common r = 1)"
proof -
  let ?A = "[''ent Foo.bar a b'', ''ent Foo.baz a b'', ''xit Foo.baz a b'']"
  let ?B = "[''ent Foo.bar a b'', ''ent Foo.qux a b'']"
  let ?r = "\<lparr>real_id = 1, real_name = ''main'',
             real_trace = Some [''ent Foo.bar a b'', ''ent Foo.baz a b''],
             emu_id = 7, emu_name = ''main'',
             e_trace = Some [''ent Foo.bar a b'', ''ent Foo.qux a b''],
             sim_cov = 1, max_common_len = 2, diverge_idx = 1, sim_max_common = 1 / 2\<rparr>"
  have h: "scan_pair 1 ''main'' 7 ''main'' 1 ?A ?B = Some ?r"
    by (simp add: scan_pair_def Let_def diverge_loop.simps slice_def)
  obtain q where q: "scan_pair 1 ''main'' 7 ''main'' 1 [] [''ent Foo.bar a b''] = Some q"
    by (simp add: scan_pair_def Let_def)
  note gen = fraction_matched_ratio [THEN conjunct1, rule_format]
  have "max_common_len q = 0" using gen [OF q] by simp
  moreover from this have "sim_max_common q = 1" using gen [OF q] by simp
  moreover have "(1 / 2 :: rat) = of_nat 1 / of_nat 2" using gen [OF h] by simp
  ultimately show ?thesis using h q by auto
qed

section \<open>Records of a whole comparison\<close>

lemma for_each_nth:
  "for_each f xs = Inr ys \<Longrightarrow>
     length ys = length xs \<and> (\<forall>i < length xs. f (xs ! i) = Inr (ys ! i))"
proof (induction xs arbitrary: ys)
  case Nil
  then show ?case by simp
next
  case (Cons x xs)
  from Cons.prems obtain y zs where y: "f x = Inr y" and zs: "for_each f xs = Inr zs"
    and ys: "ys = y # zs"
    by (auto split: sum.splits)
  from Cons.IH [OF zs] have len: "length zs = length xs"
    and nth: "\<forall>i < length xs. f (xs ! i) = Inr (zs ! i)" by simp_all
  show ?case
  proof (intro conjI allI impI)
    show "length ys = length (x # xs)" using len ys by simp
  next
    fix i assume "i < length (x # xs)"
    then show "f ((x # xs) ! i) = Inr (ys ! i)"
      using y nth ys by (cases i) simp_all
  qed
qed

lemma compare_pairs_mem:
  "compare_pairs body ps = Inr rs \<Longrightarrow> r \<in> set rs \<Longrightarrow> \<exists>p \<in> set ps. body p = Inr (Some r)"
proof (induction ps arbitrary: rs)
  case Nil
  then show ?case by simp
next
  case (Cons p ps)
  from Cons.prems(1) obtain ro rs' where ro: "body p = Inr ro"
    and rs': "compare_pairs body ps = Inr rs'"
    and rs: "rs = (case ro of None \<Rightarrow> rs' | Some r \<Rightarrow> r # rs')"
    by (auto split: sum.splits)
  show ?case
  proof (cases "r \<in> set rs'")
    case True
    from Cons.IH [OF rs' True] show ?thesis by auto
  next
    case False
    with Cons.prems(2) rs have "ro = Some r" by (cases ro) auto
    with ro show ?thesis by simp
  qed
qed

lemma compare_pairs_emitted:
  "compare_pairs body ps = Inr rs \<Longrightarrow> p \<in> set ps \<Longrightarrow>
     \<exists>ro. body p = Inr ro \<and> (\<forall>r. ro = Some r \<longrightarrow> r \<in> set rs)"
proof (induction ps arbitrary: rs)
  case Nil
  then show ?case by simp
next
  case (Cons q ps)
  from Cons.prems(1) obtain ro rs' where ro: "body q = Inr ro"
    and rs': "compare_pairs body ps = Inr rs'"
    and rs: "rs = (case ro of None \<Rightarrow> rs' | Some r \<Rightarrow> r # rs')"
    by (auto split: sum.splits)
  have sub: "set rs' \<subseteq> set rs" using rs by (cases ro) auto
  show ?case
  proof (cases "p = q")
    case True
    then show ?thesis using ro rs by (cases ro) auto
  next
    case False
    with Cons.prems(2) have "p \<in> set ps" by simp
    from Cons.IH [OF rs' this] sub show ?thesis by blast
  qed
qed

lemma compare_pair_Some:
  assumes "compare_pair dev emu rl el M (x, y) = Inr (Some r)"
  shows "\<exists>thr the A B.
           x < length rl \<and> y < length el
           \<and> map_of (thread_info dev) (rl ! x) = Some thr
           \<and> map_of (thread_info emu) (el ! y) = Some the
           \<and> clean_trace (trace thr) = Inr A \<and> clean_trace (trace the) = Inr B
           \<and> scan_pair (rl ! x) (name thr) (el ! y) (name the) (- (M ! x ! y)) A B = Some r"
  using assms unfolding compare_pair_def thread_of_def
  by (simp split: if_splits sum.splits option.splits)

lemma build_sim_matrix_entry:
  assumes "build_sim_matrix dev emu rl el = Inr M" and "x < length rl" and "y < length el"
  shows "sim_entry dev emu (rl ! x) (el ! y) = Inr (M ! x ! y)"
proof -
  from assms(1) for_each_nth
  have "for_each (sim_entry dev emu (rl ! x)) el = Inr (M ! x)"
    using assms(2) unfolding build_sim_matrix_def by blast
  from for_each_nth [OF this] assms(3) show ?thesis by blast
qed

lemma build_sim_matrix_shape:
  assumes "build_sim_matrix dev emu rl el = Inr M"
  shows "length M = length rl" and "\<forall>x < length rl. length (M ! x) = length el"
proof -
  from for_each_nth [OF assms [unfolded build_sim_matrix_def]]
  have len: "length M = length rl"
    and rows: "\<forall>x < length rl. for_each (sim_entry dev emu (rl ! x)) el = Inr (M ! x)"
    by simp_all
  show "length M = length rl" by (rule len)
  show "\<forall>x < length rl. length (M ! x) = length el"
    using rows for_each_nth by blast
qed

lemma sim_entry_Inr:
  assumes "sim_entry dev emu tid_r tid_e = Inr v"
  shows "\<exists>thr the. map_of (thread_info dev) tid_r = Some thr
           \<and> map_of (thread_info emu) tid_e = Some the
           \<and> trace_similarity (name thr) (trace thr) (name the) (trace the) = Inr (- v)"
  using assms unfolding sim_entry_def thread_of_def
  by (auto split: sum.splits option.splits)

lemma compare_trace_objs_record:
  assumes run: "compare_trace_objs dev emu = Inr recs" and mem: "r \<in> set recs"
  shows "\<exists>thr the A B.
           map_of (thread_info dev) (real_id r) = Some thr
           \<and> map_of (thread_info emu) (emu_id r) = Some the
           \<and> real_name r = name thr \<and> emu_name r = name the
           \<and> trace_similarity (name thr) (trace thr) (name the) (trace the) = Inr (sim_cov r)
           \<and> clean_trace (trace thr) = Inr A \<and> clean_trace (trace the) = Inr B
           \<and> scan_pair (real_id r) (name thr) (emu_id r) (name the) (sim_cov r) A B = Some r"
proof -
  define rl where "rl = sort (map fst (thread_info dev))"
  define el where "el = sort (map fst (thread_info emu))"
  from run obtain M where M: "build_sim_matrix dev emu rl el = Inr M"
    and ps: "compare_pairs (compare_pair dev emu rl el M)
               (linear_sum_assignment (length rl) (length el) M) = Inr recs"
    unfolding compare_trace_objs_def Let_def rl_def el_def
    by (auto split: sum.splits)
  from compare_pairs_mem [OF ps mem] obtain x y
    where body: "compare_pair dev emu rl el M (x, y) = Inr (Some r)"
    by (cases rule: bexE) auto
  from compare_pair_Some [OF body] obtain thr the A B
    where x: "x < length rl" and y: "y < length el"
      and thr: "map_of (thread_info dev) (rl ! x) = Some thr"
      and the: "map_of (thread_info emu) (el ! y) = Some the"
      and A: "clean_trace (trace thr) = Inr A" and B: "clean_trace (trace the) = Inr B"
      and sp: "scan_pair (rl ! x) (name thr) (el ! y) (name the) (- (M ! x ! y)) A B = Some r"
    by blast
  note f = scan_pair_fields [OF sp]
  from sim_entry_Inr [OF build_sim_matrix_entry [OF M x y]] thr the
  have sim: "trace_similarity (name thr) (trace thr) (name the) (trace the) = Inr (- (M ! x ! y))"
    by auto
  have "map_of (thread_info dev) (real_id r) = Some thr" using thr f(1) by simp
  moreover have "map_of (thread_info emu) (emu_id r) = Some the" using the f(3) by simp
  moreover have "trace_similarity (name thr) (trace thr) (name the) (trace the) = Inr (sim_cov r)"
    using sim f(5) by simp
  moreover have "scan_pair (real_id r) (name thr) (emu_id r) (name the) (sim_cov r) A B = Some r"
    using sp f(1,3,5) by simp
  ultimately show ?thesis using A B f(2,4) by blast
qed

lemma scan_pair_invariant:
  assumes sp: "scan_pair rid rn eid en s A B = Some r"
  shows "(real_trace r = None \<longleftrightarrow> e_trace r = None)
       \<and> (real_trace r = None \<longleftrightarrow> diverge_idx r = max_common_len r)
       \<and> (diverge_idx r = max_common_len r \<longleftrightarrow> sim_max_common r = 1)
       \<and> (\<forall>c. real_trace r = Some c \<longrightarrow> length c = (if diverge_idx r = 0 then 1 else 2))
       \<and> (\<forall>c. e_trace r = Some c \<longrightarrow> length c = (if diverge_idx r = 0 then 1 else 2))"
proof -
  have le: "diverge_idx r \<le> max_common_len r"
    using scan_pair_idx(1) [OF sp] scan_pair_fields(6) [OF sp] by simp
  show ?thesis
  proof (cases "diverge_idx r < max_common_len r")
    case True
    have "sim_max_common r \<noteq> 1" using scan_pair_fraction_one [OF sp] True by simp
    then show ?thesis
      using True scan_pair_contexts(1,2) [OF sp] by auto
  next
    case False
    with le have eq: "diverge_idx r = max_common_len r" by simp
    have "sim_max_common r = 1" using scan_pair_fraction_one [OF sp] eq by simp
    then show ?thesis
      using eq scan_pair_contexts(3) [OF sp] False by auto
  qed
qed

text \<open>
  C10.  In every record emitted, the two context fields are \<open>None\<close> together; they are
  \<open>None\<close> exactly when \<open>diverge_idx\<close> equals \<open>max_common_len\<close>, which is exactly when
  \<open>sim_max_common\<close> is 1; a context that is present has length 1 (divergence at index 0)
  or length 2.
\<close>

theorem record_context_invariant:
  "compare_trace_objs dev emu = Inr recs \<Longrightarrow> r \<in> set recs \<Longrightarrow>
     (real_trace r = None \<longleftrightarrow> e_trace r = None)
     \<and> (real_trace r = None \<longleftrightarrow> diverge_idx r = max_common_len r)
     \<and> (diverge_idx r = max_common_len r \<longleftrightarrow> sim_max_common r = 1)
     \<and> (\<forall>c. real_trace r = Some c \<longrightarrow> length c = (if diverge_idx r = 0 then 1 else 2))
     \<and> (\<forall>c. e_trace r = Some c \<longrightarrow> length c = (if diverge_idx r = 0 then 1 else 2))"
proof -
  assume "compare_trace_objs dev emu = Inr recs" and "r \<in> set recs"
  from compare_trace_objs_record [OF this]
  obtain thr :: thread_rec and the :: thread_rec and A B
    where "scan_pair (real_id r) (name thr) (emu_id r) (name the) (sim_cov r) A B = Some r"
    by blast
  then show ?thesis by (rule scan_pair_invariant)
qed


theorem record_context_invariant_witness:
  "compare_trace_objs
     \<lparr>version = 3,
      thread_info = [(1, \<lparr>name = ''main'',
                          trace = [''ent Foo.bar a b'', ''ent Foo.baz a b'']\<rparr>)]\<rparr>
     \<lparr>version = 3,
      thread_info = [(7, \<lparr>name = ''main'',
                          trace = [''ent Foo.bar a b'', ''ent Foo.qux a b'']\<rparr>)]\<rparr>
   = Inr [\<lparr>real_id = 1, real_name = ''main'',
            real_trace = Some [''ent Foo.bar a b'', ''ent Foo.baz a b''],
            emu_id = 7, emu_name = ''main'',
            e_trace = Some [''ent Foo.bar a b'', ''ent Foo.qux a b''],
            sim_cov = 1 / 3, max_common_len = 2, diverge_idx = 1, sim_max_common = 1 / 2\<rparr>]
   \<and> length [''ent Foo.bar a b'', ''ent Foo.baz a b''] = (if (1::nat) = 0 then 1 else 2)
   \<and> (1::nat) \<noteq> 2 \<and> (1 / 2 :: rat) \<noteq> 1"
proof -
  let ?dev = "\<lparr>version = 3,
      thread_info = [(1, \<lparr>name = ''main'',
                          trace = [''ent Foo.bar a b'', ''ent Foo.baz a b'']\<rparr>)]\<rparr>"
  let ?emu = "\<lparr>version = 3,
      thread_info = [(7, \<lparr>name = ''main'',
                          trace = [''ent Foo.bar a b'', ''ent Foo.qux a b'']\<rparr>)]\<rparr>"
  let ?r = "\<lparr>real_id = 1, real_name = ''main'',
            real_trace = Some [''ent Foo.bar a b'', ''ent Foo.baz a b''],
            emu_id = 7, emu_name = ''main'',
            e_trace = Some [''ent Foo.bar a b'', ''ent Foo.qux a b''],
            sim_cov = 1 / 3, max_common_len = 2, diverge_idx = 1, sim_max_common = 1 / 2\<rparr>"
  have h: "compare_trace_objs ?dev ?emu = Inr [?r]"
    by code_simp
  have m: "?r \<in> set [?r]" by simp
  from record_context_invariant [OF h m] h show ?thesis by simp
qed

lemma compare_pair_Inr:
  assumes "compare_pair dev emu rl el M (x, y) = Inr ro"
  shows "\<exists>thr the A B.
           x < length rl \<and> y < length el
           \<and> map_of (thread_info dev) (rl ! x) = Some thr
           \<and> map_of (thread_info emu) (el ! y) = Some the
           \<and> clean_trace (trace thr) = Inr A \<and> clean_trace (trace the) = Inr B
           \<and> ro = scan_pair (rl ! x) (name thr) (el ! y) (name the) (- (M ! x ! y)) A B"
  using assms unfolding compare_pair_def thread_of_def
  by (simp split: if_splits sum.splits option.splits)

text \<open>
  C1 as stated fails.  In the traces below the only device thread and the only emulator
  thread are matched, both filtered sequences are non-empty and their first events differ;
  the list of records is empty.
\<close>

theorem unaligned_pair_counterexample:
  "process_trace unaligned_device
     = Inr \<lparr>version = 3,
            thread_info =
              [(1, \<lparr>name = ''main'',
                    trace = [''ent com.app.Main.run ()V Main.java'',
                             ''ent com.app.Main.init ()V Main.java'']\<rparr>)]\<rparr>
   \<and> process_trace unaligned_emulator
     = Inr \<lparr>version = 3,
            thread_info =
              [(7, \<lparr>name = ''main'',
                    trace = [''ent com.app.Main.check ()Z Main.java'',
                             ''ent com.app.Main.init ()V Main.java'']\<rparr>)]\<rparr>
   \<and> clean_trace [''ent com.app.Main.run ()V Main.java'', ''ent com.app.Main.init ()V Main.java'']
     = Inr [''ent com.app.Main.run ()V Main.java'', ''ent com.app.Main.init ()V Main.java'']
   \<and> clean_trace [''ent com.app.Main.check ()Z Main.java'', ''ent com.app.Main.init ()V Main.java'']
     = Inr [''ent com.app.Main.check ()Z Main.java'', ''ent com.app.Main.init ()V Main.java'']
   \<and> linear_sum_assignment 1 1 [[- (1 / 3)]] = [(0, 0)]
   \<and> compare_trace unaligned_device unaligned_emulator = Inr []"
  by code_simp

text \<open>
  C1, amended.  The loop body emits a record exactly for an aligned pair: it emits nothing
  when both filtered sequences are non-empty and their first events differ.  Every record in
  the output belongs to two threads whose filtered sequences are aligned (one of them empty,
  or equal first events), and every matched pair that is aligned has a record in the output.
\<close>

theorem record_only_for_aligned_pair:
  "(scan_pair rid rn eid en s A B = None \<longleftrightarrow> A \<noteq> [] \<and> B \<noteq> [] \<and> A ! 0 \<noteq> B ! 0)
   \<and> (compare_trace_objs dev emu = Inr recs \<longrightarrow>
        (\<forall>r \<in> set recs.
           \<exists>thr the A' B'.
             map_of (thread_info dev) (real_id r) = Some thr
             \<and> map_of (thread_info emu) (emu_id r) = Some the
             \<and> clean_trace (trace thr) = Inr A' \<and> clean_trace (trace the) = Inr B'
             \<and> (A' = [] \<or> B' = [] \<or> A' ! 0 = B' ! 0)))
   \<and> (compare_trace_objs dev emu = Inr recs
        \<and> build_sim_matrix dev emu
             (sort (map fst (thread_info dev))) (sort (map fst (thread_info emu))) = Inr M \<longrightarrow>
        (\<forall>(x, y) \<in> set (linear_sum_assignment
                            (length (sort (map fst (thread_info dev))))
                            (length (sort (map fst (thread_info emu)))) M).
           \<exists>thr the A' B'.
             map_of (thread_info dev) (sort (map fst (thread_info dev)) ! x) = Some thr
             \<and> map_of (thread_info emu) (sort (map fst (thread_info emu)) ! y) = Some the
             \<and> clean_trace (trace thr) = Inr A' \<and> clean_trace (trace the) = Inr B'
             \<and> (A' = [] \<or> B' = [] \<or> A' ! 0 = B' ! 0 \<longrightarrow>
                  (\<exists>r \<in> set recs.
                     real_id r = sort (map fst (thread_info dev)) ! x
                     \<and> emu_id r = sort (map fst (thread_info emu)) ! y))))"
proof (intro conjI impI)
  show "scan_pair rid rn eid en s A B = None \<longleftrightarrow> A \<noteq> [] \<and> B \<noteq> [] \<and> A ! 0 \<noteq> B ! 0"
    by (rule scan_pair_None)
next
  assume run: "compare_trace_objs dev emu = Inr recs"
  show "\<forall>r \<in> set recs.
           \<exists>thr the A' B'.
             map_of (thread_info dev) (real_id r) = Some thr
             \<and> map_of (thread_info emu) (emu_id r) = Some the
             \<and> clean_trace (trace thr) = Inr A' \<and> clean_trace (trace the) = Inr B'
             \<and> (A' = [] \<or> B' = [] \<or> A' ! 0 = B' ! 0)"
  proof
    fix r assume "r \<in> set recs"
    from compare_trace_objs_record [OF run this]
    obtain thr :: thread_rec and the :: thread_rec and A' B'
      where thr: "map_of (thread_info dev) (real_id r) = Some thr"
        and the: "map_of (thread_info emu) (emu_id r) = Some the"
        and cl: "clean_trace (trace thr) = Inr A'" "clean_trace (trace the) = Inr B'"
        and sp: "scan_pair (real_id r) (name thr) (emu_id r) (name the) (sim_cov r) A' B' = Some r"
      by blast
    from sp have "A' = [] \<or> B' = [] \<or> A' ! 0 = B' ! 0"
      using scan_pair_None [of "real_id r" "name thr" "emu_id r" "name the" "sim_cov r" A' B']
      by auto
    with thr the cl
    show "\<exists>thr the A' B'.
             map_of (thread_info dev) (real_id r) = Some thr
             \<and> map_of (thread_info emu) (emu_id r) = Some the
             \<and> clean_trace (trace thr) = Inr A' \<and> clean_trace (trace the) = Inr B'
             \<and> (A' = [] \<or> B' = [] \<or> A' ! 0 = B' ! 0)"
      by blast
  qed
next
  define rl where "rl = sort (map fst (thread_info dev))"
  define el where "el = sort (map fst (thread_info emu))"
  assume "compare_trace_objs dev emu = Inr recs
        \<and> build_sim_matrix dev emu
             (sort (map fst (thread_info dev))) (sort (map fst (thread_info emu))) = Inr M"
  then have run: "compare_trace_objs dev emu = Inr recs"
    and M: "build_sim_matrix dev emu rl el = Inr M"
    by (simp_all add: rl_def el_def)
  from run M
  have ps: "compare_pairs (compare_pair dev emu rl el M)
               (linear_sum_assignment (length rl) (length el) M) = Inr recs"
    unfolding compare_trace_objs_def Let_def rl_def el_def by simp
  have "\<exists>thr the A' B'.
             map_of (thread_info dev) (rl ! x) = Some thr
             \<and> map_of (thread_info emu) (el ! y) = Some the
             \<and> clean_trace (trace thr) = Inr A' \<and> clean_trace (trace the) = Inr B'
             \<and> (A' = [] \<or> B' = [] \<or> A' ! 0 = B' ! 0 \<longrightarrow>
                  (\<exists>r \<in> set recs. real_id r = rl ! x \<and> emu_id r = el ! y))"
    if mem: "(x, y) \<in> set (linear_sum_assignment (length rl) (length el) M)" for x y
  proof -
    from compare_pairs_emitted [OF ps mem] obtain ro
      where ro: "compare_pair dev emu rl el M (x, y) = Inr ro"
        and emitted: "\<forall>r. ro = Some r \<longrightarrow> r \<in> set recs"
      by blast
    from compare_pair_Inr [OF ro]
    obtain thr :: thread_rec and the :: thread_rec and A' B'
      where thr: "map_of (thread_info dev) (rl ! x) = Some thr"
        and the: "map_of (thread_info emu) (el ! y) = Some the"
        and cl: "clean_trace (trace thr) = Inr A'" "clean_trace (trace the) = Inr B'"
        and sp: "ro = scan_pair (rl ! x) (name thr) (el ! y) (name the) (- (M ! x ! y)) A' B'"
      by blast
    have "\<exists>r \<in> set recs. real_id r = rl ! x \<and> emu_id r = el ! y"
      if al: "A' = [] \<or> B' = [] \<or> A' ! 0 = B' ! 0"
    proof -
      from al have "ro \<noteq> None" unfolding sp by (simp add: scan_pair_None)
      then obtain r where r: "ro = Some r" by blast
      with emitted have "r \<in> set recs" by blast
      moreover have "real_id r = rl ! x" "emu_id r = el ! y"
        using scan_pair_fields(1,3) [OF sp [symmetric, unfolded r]] by simp_all
      ultimately show ?thesis by blast
    qed
    with thr the cl show ?thesis by blast
  qed
  then show "\<forall>(x, y) \<in> set (linear_sum_assignment
                            (length (sort (map fst (thread_info dev))))
                            (length (sort (map fst (thread_info emu)))) M).
           \<exists>thr the A' B'.
             map_of (thread_info dev) (sort (map fst (thread_info dev)) ! x) = Some thr
             \<and> map_of (thread_info emu) (sort (map fst (thread_info emu)) ! y) = Some the
             \<and> clean_trace (trace thr) = Inr A' \<and> clean_trace (trace the) = Inr B'
             \<and> (A' = [] \<or> B' = [] \<or> A' ! 0 = B' ! 0 \<longrightarrow>
                  (\<exists>r \<in> set recs.
                     real_id r = sort (map fst (thread_info dev)) ! x
                     \<and> emu_id r = sort (map fst (thread_info emu)) ! y))"
    unfolding rl_def el_def by blast
qed

theorem record_only_for_aligned_pair_witness:
  "scan_pair 1 ''main'' 7 ''main'' 0 [''ent Foo.bar a b''] [''ent Foo.qux a b''] = None
   \<and> compare_trace_objs
       \<lparr>version = 3,
        thread_info = [(1, \<lparr>name = ''main'',
                            trace = [''ent Foo.bar a b'', ''ent Foo.baz a b'']\<rparr>)]\<rparr>
       \<lparr>version = 3,
        thread_info = [(7, \<lparr>name = ''main'',
                            trace = [''ent Foo.bar a b'', ''ent Foo.qux a b'']\<rparr>)]\<rparr>
     = Inr [\<lparr>real_id = 1, real_name = ''main'',
              real_trace = Some [''ent Foo.bar a b'', ''ent Foo.baz a b''],
              emu_id = 7, emu_name = ''main'',
              e_trace = Some [''ent Foo.bar a b'', ''ent Foo.qux a b''],
              sim_cov = 1 / 3, max_common_len = 2, diverge_idx = 1, sim_max_common = 1 / 2\<rparr>]
   \<and> clean_trace [''ent Foo.bar a b'', ''ent Foo.baz a b'']
       = Inr [''ent Foo.bar a b'', ''ent Foo.baz a b'']
   \<and> clean_trace [''ent Foo.bar a b'', ''ent Foo.qux a b'']
       = Inr [''ent Foo.bar a b'', ''ent Foo.qux a b'']
   \<and> [''ent Foo.bar a b'', ''ent Foo.baz a b''] ! 0 = [''ent Foo.bar a b'', ''ent Foo.qux a b''] ! 0"
proof -
  let ?dev = "\<lparr>version = 3,
      thread_info = [(1, \<lparr>name = ''main'',
                          trace = [''ent Foo.bar a b'', ''ent Foo.baz a b'']\<rparr>)]\<rparr>"
  let ?emu = "\<lparr>version = 3,
      thread_info = [(7, \<lparr>name = ''main'',
                          trace = [''ent Foo.bar a b'', ''ent Foo.qux a b'']\<rparr>)]\<rparr>"
  let ?r = "\<lparr>real_id = 1, real_name = ''main'',
            real_trace = Some [''ent Foo.bar a b'', ''ent Foo.baz a b''],
            emu_id = 7, emu_name = ''main'',
            e_trace = Some [''ent Foo.bar a b'', ''ent Foo.qux a b''],
            sim_cov = 1 / 3, max_common_len = 2, diverge_idx = 1, sim_max_common = 1 / 2\<rparr>"
  note t = record_only_for_aligned_pair
    [of 1 "''main''" 7 "''main''" 0 "[''ent Foo.bar a b'']" "[''ent Foo.qux a b'']"
        ?dev ?emu "[?r]" "[[- (1 / 3)]]"]
  have h: "compare_trace_objs ?dev ?emu = Inr [?r]"
    by code_simp
  have none: "scan_pair 1 ''main'' 7 ''main'' 0 [''ent Foo.bar a b''] [''ent Foo.qux a b''] = None"
    using t [THEN conjunct1] by simp
  have al: "\<exists>A' B'. clean_trace [''ent Foo.bar a b'', ''ent Foo.baz a b''] = Inr A'
             \<and> clean_trace [''ent Foo.bar a b'', ''ent Foo.qux a b''] = Inr B'
             \<and> (A' = [] \<or> B' = [] \<or> A' ! 0 = B' ! 0)"
    using t [THEN conjunct2, THEN conjunct1, rule_format, OF h, of ?r] by simp
  have ca: "clean_trace [''ent Foo.bar a b'', ''ent Foo.baz a b'']
          = Inr [''ent Foo.bar a b'', ''ent Foo.baz a b'']"
    by code_simp
  have cb: "clean_trace [''ent Foo.bar a b'', ''ent Foo.qux a b'']
          = Inr [''ent Foo.bar a b'', ''ent Foo.qux a b'']"
    by code_simp
  from al ca cb none h show ?thesis by simp
qed

text \<open>
  C2 as stated fails.  The device thread below has one application event and one
  \<open>java.\<close> event, the emulator thread the application event only.  The reported similarity
  is 1/2, the value on the sequences as parsed; on the filtered sequences it would be 1.
\<close>

theorem similarity_over_filtered_counterexample:
  "compare_trace noisy_device noisy_emulator
     = Inr [\<lparr>real_id = 1, real_name = ''main'', real_trace = None,
              emu_id = 7, emu_name = ''main'', e_trace = None,
              sim_cov = 1 / 2, max_common_len = 1, diverge_idx = 1, sim_max_common = 1\<rparr>]
   \<and> clean_trace [''ent com.app.Main.run ()V Main.java'',
                  ''ent java.lang.String.length ()I String.java'']
     = Inr [''ent com.app.Main.run ()V Main.java'']
   \<and> clean_trace [''ent com.app.Main.run ()V Main.java'']
     = Inr [''ent com.app.Main.run ()V Main.java'']
   \<and> trace_similarity ''main'' [''ent com.app.Main.run ()V Main.java'']
                        ''main'' [''ent com.app.Main.run ()V Main.java'']
     = Inr 1"
  by code_simp

text \<open>
  C2, amended.  Every entry of the similarity matrix, and the \<open>sim_cov\<close> of every record, is
  \<open>trace_similarity\<close> of the two threads' names and of their event sequences as parsed
  (\<open>trace\<close>, before \<open>clean_trace\<close>); the matrix holds its negation.
\<close>

theorem similarity_over_parsed_traces:
  "(build_sim_matrix dev emu rl el = Inr M \<longrightarrow>
      (\<forall>x < length rl. \<forall>y < length el.
         \<exists>thr the.
           map_of (thread_info dev) (rl ! x) = Some thr
           \<and> map_of (thread_info emu) (el ! y) = Some the
           \<and> trace_similarity (name thr) (trace thr) (name the) (trace the)
               = Inr (- (M ! x ! y))))
   \<and> (compare_trace_objs dev emu = Inr recs \<longrightarrow>
        (\<forall>r \<in> set recs.
           \<exists>thr the.
             map_of (thread_info dev) (real_id r) = Some thr
             \<and> map_of (thread_info emu) (emu_id r) = Some the
             \<and> trace_similarity (name thr) (trace thr) (name the) (trace the)
                 = Inr (sim_cov r)))"
proof (intro conjI impI allI ballI)
  fix x y
  assume M: "build_sim_matrix dev emu rl el = Inr M" and x: "x < length rl" and y: "y < length el"
  from sim_entry_Inr [OF build_sim_matrix_entry [OF M x y]]
  show "\<exists>thr the.
           map_of (thread_info dev) (rl ! x) = Some thr
           \<and> map_of (thread_info emu) (el ! y) = Some the
           \<and> trace_similarity (name thr) (trace thr) (name the) (trace the)
               = Inr (- (M ! x ! y))"
    by simp
next
  fix r
  assume "compare_trace_objs dev emu = Inr recs" and "r \<in> set recs"
  from compare_trace_objs_record [OF this]
  show "\<exists>thr the.
             map_of (thread_info dev) (real_id r) = Some thr
             \<and> map_of (thread_info emu) (emu_id r) = Some the
             \<and> trace_similarity (name thr) (trace thr) (name the) (trace the)
                 = Inr (sim_cov r)"
    by blast
qed

theorem similarity_over_parsed_traces_witness:
  "compare_trace_objs
       \<lparr>version = 3,
        thread_info =
          [(1, \<lparr>name = ''main'',
                trace = [''ent com.app.Main.run ()V Main.java'',
                         ''ent java.lang.String.length ()I String.java'']\<rparr>)]\<rparr>
       \<lparr>version = 3,
        thread_info =
          [(7, \<lparr>name = ''main'', trace = [''ent com.app.Main.run ()V Main.java'']\<rparr>)]\<rparr>
     = Inr [\<lparr>real_id = 1, real_name = ''main'', real_trace = None,
              emu_id = 7, emu_name = ''main'', e_trace = None,
              sim_cov = 1 / 2, max_common_len = 1, diverge_idx = 1, sim_max_common = 1\<rparr>]
   \<and> trace_similarity ''main''
         [''ent com.app.Main.run ()V Main.java'', ''ent java.lang.String.length ()I String.java'']
         ''main'' [''ent com.app.Main.run ()V Main.java'']
     = Inr (1 / 2)"
proof -
  let ?dev = "\<lparr>version = 3,
        thread_info =
          [(1, \<lparr>name = ''main'',
                trace = [''ent com.app.Main.run ()V Main.java'',
                         ''ent java.lang.String.length ()I String.java'']\<rparr>)]\<rparr>"
  let ?emu = "\<lparr>version = 3,
        thread_info =
          [(7, \<lparr>name = ''main'', trace = [''ent com.app.Main.run ()V Main.java'']\<rparr>)]\<rparr>"
  let ?r = "\<lparr>real_id = 1, real_name = ''main'', real_trace = None,
              emu_id = 7, emu_name = ''main'', e_trace = None,
              sim_cov = 1 / 2, max_common_len = 1, diverge_idx = 1, sim_max_common = 1\<rparr>"
  have h: "compare_trace_objs ?dev ?emu = Inr [?r]"
    by code_simp
  from similarity_over_parsed_traces [THEN conjunct2, rule_format, OF h, of ?r]
  have "trace_similarity ''main''
         [''ent com.app.Main.run ()V Main.java'', ''ent java.lang.String.length ()I String.java'']
         ''main'' [''ent com.app.Main.run ()V Main.java'']
     = Inr (1 / 2)"
    by simp
  with h show ?thesis by simp
qed

section \<open>Similarity of two threads\<close>

lemma class_methods_Inr:
  assumes "class_methods ts = Inr S"
  shows "S = {cm. \<exists>t \<in> set ts. trace_str_to_class_method t = Inr cm}"
    and "finite S"
    and "\<forall>t \<in> set ts. \<exists>cm. trace_str_to_class_method t = Inr cm"
    and "S = {} \<longleftrightarrow> ts = []"
  using assms
proof (induction ts arbitrary: S)
  case Nil
  {
    case 1 then show ?case by simp
  next
    case 2 then show ?case by simp
  next
    case 3 then show ?case by simp
  next
    case 4 then show ?case by simp
  }
next
  case (Cons t ts)
  {
    case 1
    then obtain cm S' where cm: "trace_str_to_class_method t = Inr cm"
      and S': "class_methods ts = Inr S'" and S: "S = insert cm S'"
      by (auto split: sum.splits)
    from Cons.IH(1) [OF S'] cm S show ?case by auto
  next
    case 2
    then obtain cm S' where S': "class_methods ts = Inr S'" and S: "S = insert cm S'"
      by (auto split: sum.splits)
    from Cons.IH(2) [OF S'] S show ?case by simp
  next
    case 3
    then obtain cm S' where cm: "trace_str_to_class_method t = Inr cm"
      and S': "class_methods ts = Inr S'"
      by (auto split: sum.splits)
    from Cons.IH(3) [OF S'] cm show ?case by simp
  next
    case 4
    then obtain cm S' where S: "S = insert cm S'"
      by (auto split: sum.splits)
    then show ?case by simp
  }
qed

lemma class_methods_ok:
  "\<forall>t \<in> set ts. \<exists>cm. trace_str_to_class_method t = Inr cm \<Longrightarrow> \<exists>S. class_methods ts = Inr S"
  by (induction ts) auto

lemma skip_marks:
  "set ms \<subseteq> {CHR ''!''} \<Longrightarrow> skip_non_alpha (ms @ CHR '' '' # rest) = skip_non_alpha rest"
  by (induction ms) (auto simp add: isalpha_def)

lemma class_method_of_event:
  assumes "length action = 3" and "set marks \<subseteq> {CHR ''!''}"
  shows "trace_str_to_class_method (action @ marks @ '' '' @ rest) = skip_non_alpha rest"
proof (cases marks)
  case Nil
  with assms(1) show ?thesis
    by (simp add: trace_str_to_class_method_def isalpha_def)
next
  case (Cons c ms)
  with assms(2) have "set ms \<subseteq> {CHR ''!''}" by simp
  from skip_marks [OF this, of rest] Cons assms(1) show ?thesis
    by (simp add: trace_str_to_class_method_def)
qed

lemma trace_similarity_Inr:
  assumes "trace_similarity name_a trace_a name_b trace_b = Inr s"
  shows "\<exists>A B. class_methods trace_a = Inr A \<and> class_methods trace_b = Inr B
           \<and> max (length name_a) (length name_b) \<noteq> 0 \<and> card (A \<union> B) \<noteq> 0
           \<and> s = (of_nat (length (commonprefix name_a name_b))
                     / of_nat (max (length name_a) (length name_b)))
                  * (of_nat (card (A \<inter> B)) / of_nat (card (A \<union> B)))"
  using assms unfolding trace_similarity_def
  by (auto split: sum.splits if_splits)

text \<open>
  C7 as stated fails.  The two events below have the same class-and-method name and differ
  in the first trailing field only; their identifiers differ, and two threads made of one
  such event each have coverage similarity 0.
\<close>

theorem identifier_keeps_trailing_fields_counterexample:
  "trace_str_to_class_method ''ent com.app.Main.run ()V Main.java''
     = Inr ''com.app.Main.run ()V Main.java''
   \<and> trace_str_to_class_method ''ent com.app.Main.run (I)V Main.java''
     = Inr ''com.app.Main.run (I)V Main.java''
   \<and> trace_similarity ''main'' [''ent com.app.Main.run ()V Main.java'']
                        ''main'' [''ent com.app.Main.run (I)V Main.java'']
     = Inr 0"
  by code_simp

text \<open>
  C7, amended.  The coverage similarity of two threads is the Jaccard index of the two sets
  of identifiers that \<open>trace_str_to_class_method\<close> gives for their events.  The identifier
  of an event is the rest of the event string after the event kind and the exclusive
  markers, from its first letter on: the class-and-method name together with the two
  trailing fields.  Two events with the same class-and-method name and the same trailing
  fields have the same identifier, whatever their kinds and markers.
\<close>

theorem coverage_similarity_over_event_tails:
  "(trace_similarity name_a trace_a name_b trace_b = Inr s \<longrightarrow>
      s = (of_nat (length (commonprefix name_a name_b))
             / of_nat (max (length name_a) (length name_b)))
          * (of_nat (card ({cm. \<exists>t \<in> set trace_a. trace_str_to_class_method t = Inr cm}
                           \<inter> {cm. \<exists>t \<in> set trace_b. trace_str_to_class_method t = Inr cm}))
             / of_nat (card ({cm. \<exists>t \<in> set trace_a. trace_str_to_class_method t = Inr cm}
                             \<union> {cm. \<exists>t \<in> set trace_b. trace_str_to_class_method t = Inr cm}))))
   \<and> (li_action li \<in> {''ent'', ''xit'', ''unr''} \<and> set (li_marks li) \<subseteq> {CHR ''!''} \<longrightarrow>
        trace_str_to_class_method (format_item li)
          = skip_non_alpha (li_method li @ '' '' @ li_field5 li @ '' '' @ li_field6 li))
   \<and> (li_action li \<in> {''ent'', ''xit'', ''unr''} \<and> set (li_marks li) \<subseteq> {CHR ''!''}
        \<and> li_action li' \<in> {''ent'', ''xit'', ''unr''} \<and> set (li_marks li') \<subseteq> {CHR ''!''}
        \<and> li_method li = li_method li'
        \<and> li_field5 li = li_field5 li' \<and> li_field6 li = li_field6 li' \<longrightarrow>
        trace_str_to_class_method (format_item li) = trace_str_to_class_method (format_item li'))"
proof -
  have tail: "trace_str_to_class_method (format_item l)
          = skip_non_alpha (li_method l @ '' '' @ li_field5 l @ '' '' @ li_field6 l)"
    if "li_action l \<in> {''ent'', ''xit'', ''unr''} \<and> set (li_marks l) \<subseteq> {CHR ''!''}"
    for l :: line_info
  proof -
    from that have "length (li_action l) = 3" by auto
    from class_method_of_event [OF this] that show ?thesis
      unfolding format_item_def by blast
  qed
  have jac: "s = (of_nat (length (commonprefix name_a name_b))
             / of_nat (max (length name_a) (length name_b)))
          * (of_nat (card ({cm. \<exists>t \<in> set trace_a. trace_str_to_class_method t = Inr cm}
                           \<inter> {cm. \<exists>t \<in> set trace_b. trace_str_to_class_method t = Inr cm}))
             / of_nat (card ({cm. \<exists>t \<in> set trace_a. trace_str_to_class_method t = Inr cm}
                             \<union> {cm. \<exists>t \<in> set trace_b. trace_str_to_class_method t = Inr cm})))"
    if "trace_similarity name_a trace_a name_b trace_b = Inr s"
  proof -
    from trace_similarity_Inr [OF that] obtain A B
      where A: "class_methods trace_a = Inr A" and B: "class_methods trace_b = Inr B"
        and s: "s = (of_nat (length (commonprefix name_a name_b))
                     / of_nat (max (length name_a) (length name_b)))
                  * (of_nat (card (A \<inter> B)) / of_nat (card (A \<union> B)))"
      by blast
    from class_methods_Inr(1) [OF A] class_methods_Inr(1) [OF B] s show ?thesis by simp
  qed
  from tail [of li] tail [of li'] jac show ?thesis by simp
qed

theorem coverage_similarity_over_event_tails_witness:
  "trace_similarity ''main'' [''ent com.app.Main.run ()V Main.java'']
                    ''main'' [''xit!! com.app.Main.run ()V Main.java'']
     = Inr 1
   \<and> trace_str_to_class_method ''ent com.app.Main.run ()V Main.java''
       = trace_str_to_class_method ''xit!! com.app.Main.run ()V Main.java''"
proof -
  let ?a = "\<lparr>li_tid = 1, li_action = ''ent'', li_marks = '''', li_depth = ''0'',
             li_method = ''com.app.Main.run'', li_field5 = ''()V'', li_field6 = ''Main.java''\<rparr>"
  let ?b = "\<lparr>li_tid = 7, li_action = ''xit'', li_marks = ''!!'', li_depth = ''2'',
             li_method = ''com.app.Main.run'', li_field5 = ''()V'', li_field6 = ''Main.java''\<rparr>"
  have h: "trace_similarity ''main'' [''ent com.app.Main.run ()V Main.java'']
                    ''main'' [''xit!! com.app.Main.run ()V Main.java''] = Inr 1"
    by code_simp
  note t = coverage_similarity_over_event_tails
    [of "''main''" "[''ent com.app.Main.run ()V Main.java'']"
        "''main''" "[''xit!! com.app.Main.run ()V Main.java'']" 1 ?a ?b]
  have "trace_str_to_class_method (format_item ?a) = trace_str_to_class_method (format_item ?b)"
    using t [THEN conjunct2, THEN conjunct2] by simp
  then have "trace_str_to_class_method ''ent com.app.Main.run ()V Main.java''
       = trace_str_to_class_method ''xit!! com.app.Main.run ()V Main.java''"
    by (simp add: format_item_def)
  with h show ?thesis by simp
qed

text \<open>
  C8 as stated fails.  With both thread names empty, and with both event sequences empty,
  \<open>trace_similarity\<close> raises \<open>ZeroDivisionError\<close>; two traces whose only threads have empty
  names make the whole comparison raise it.
\<close>

theorem similarity_raises_counterexample:
  "trace_similarity '''' [''ent com.app.Main.run ()V Main.java'']
                    '''' [''ent com.app.Main.run ()V Main.java'']
     = Inl ZeroDivisionError
   \<and> trace_similarity ''main'' [] ''main'' [] = Inl ZeroDivisionError
   \<and> compare_trace nameless_device nameless_emulator = Inl ZeroDivisionError"
  by code_simp

text \<open>
  C8, amended.  \<open>trace_similarity\<close> returns a value exactly when every event string of both
  threads has a letter at index 4 or later, at least one of the two names is non-empty and at
  least one of the two event sequences is non-empty.  On such event strings it raises
  \<open>ZeroDivisionError\<close> when both names are empty or when the union of the two method sets
  is empty (both sequences empty).
\<close>

theorem similarity_defined_iff:
  "((\<exists>s. trace_similarity name_a trace_a name_b trace_b = Inr s) \<longleftrightarrow>
      (\<forall>t \<in> set (trace_a @ trace_b). \<exists>cm. trace_str_to_class_method t = Inr cm)
      \<and> (name_a \<noteq> [] \<or> name_b \<noteq> [])
      \<and> (trace_a \<noteq> [] \<or> trace_b \<noteq> []))
   \<and> ((\<forall>t \<in> set (trace_a @ trace_b). \<exists>cm. trace_str_to_class_method t = Inr cm)
        \<and> (name_a = [] \<and> name_b = [] \<or> trace_a = [] \<and> trace_b = []) \<longrightarrow>
        trace_similarity name_a trace_a name_b trace_b = Inl ZeroDivisionError)"
proof (cases "\<forall>t \<in> set (trace_a @ trace_b). \<exists>cm. trace_str_to_class_method t = Inr cm")
  case False
  have "\<not> (\<exists>s. trace_similarity name_a trace_a name_b trace_b = Inr s)"
  proof
    assume "\<exists>s. trace_similarity name_a trace_a name_b trace_b = Inr s"
    then obtain s where "trace_similarity name_a trace_a name_b trace_b = Inr s" ..
    from trace_similarity_Inr [OF this] obtain A B
      where "class_methods trace_a = Inr A" "class_methods trace_b = Inr B" by blast
    from class_methods_Inr(3) [OF this(1)] class_methods_Inr(3) [OF this(2)] False
    show False by auto
  qed
  with False show ?thesis by blast
next
  case True
  then have "\<forall>t \<in> set trace_a. \<exists>cm. trace_str_to_class_method t = Inr cm"
    and "\<forall>t \<in> set trace_b. \<exists>cm. trace_str_to_class_method t = Inr cm"
    by auto
  from class_methods_ok [OF this(1)] class_methods_ok [OF this(2)] obtain A B
    where A: "class_methods trace_a = Inr A" and B: "class_methods trace_b = Inr B" by blast
  have fin: "finite (A \<union> B)"
    using class_methods_Inr(2) [OF A] class_methods_Inr(2) [OF B] by simp
  have empty: "A \<union> B = {} \<longleftrightarrow> trace_a = [] \<and> trace_b = []"
    using class_methods_Inr(4) [OF A] class_methods_Inr(4) [OF B] by simp
  from fin empty have card0: "card (A \<union> B) = 0 \<longleftrightarrow> trace_a = [] \<and> trace_b = []"
    by simp
  show ?thesis
    using True card0 unfolding trace_similarity_def A B
    by (auto simp del: card_eq_0_iff)
qed

theorem similarity_defined_iff_witness:
  "(\<exists>s. trace_similarity ''main'' [''ent com.app.Main.run ()V Main.java'']
                         ''worker'' [''xit com.app.Main.run ()V Main.java''] = Inr s)
   \<and> trace_similarity '''' [''ent com.app.Main.run ()V Main.java'']
                        '''' [''xit com.app.Main.run ()V Main.java'']
       = Inl ZeroDivisionError"
proof -
  let ?ta = "[''ent com.app.Main.run ()V Main.java'']"
  let ?tb = "[''xit com.app.Main.run ()V Main.java'']"
  have wf: "\<forall>t \<in> set (?ta @ ?tb). \<exists>cm. trace_str_to_class_method t = Inr cm"
    by (simp add: trace_str_to_class_method_def isalpha_def)
  have "\<exists>s. trace_similarity ''main'' ?ta ''worker'' ?tb = Inr s"
    using similarity_defined_iff [of "''main''" ?ta "''worker''" ?tb, THEN conjunct1] wf
    by simp
  moreover have "trace_similarity '''' ?ta '''' ?tb = Inl ZeroDivisionError"
    using similarity_defined_iff [of "''''" ?ta "''''" ?tb, THEN conjunct2] wf
    by simp
  ultimately show ?thesis by simp
qed

section \<open>Threads that take part in the matching\<close>

lemma declare_threads_inv:
  "distinct (map fst d) \<Longrightarrow> (\<forall>tid th. map_of d tid = Some th \<longrightarrow> trace th = []) \<Longrightarrow>
     distinct (map fst (declare_threads d ls))
     \<and> (\<forall>tid th. map_of (declare_threads d ls) tid = Some th \<longrightarrow> trace th = [])"
proof (induction ls arbitrary: d)
  case Nil
  then show ?case by (simp only: declare_threads.simps)
next
  case (Cons l ls)
  obtain tid nm where l: "l = (tid, nm)" by (cases l)
  let ?d = "AList.update tid \<lparr>name = nm, trace = []\<rparr> d"
  have dist: "distinct (map fst ?d)" using Cons.prems(1) by (rule distinct_update)
  have inv: "\<forall>k th. map_of ?d k = Some th \<longrightarrow> trace th = []"
  proof (intro allI impI)
    fix k th assume look: "map_of ?d k = Some th"
    show "trace th = []"
    proof (cases "k = tid")
      case True
      with look have "th = \<lparr>name = nm, trace = []\<rparr>" by (simp add: update_conv')
      then show ?thesis by simp
    next
      case False
      with look have "map_of d k = Some th" by (simp add: update_conv')
      with Cons.prems(2) show ?thesis by blast
    qed
  qed
  have eq: "declare_threads d (l # ls) = declare_threads ?d ls" by (simp add: l)
  show ?case unfolding eq by (rule Cons.IH [OF dist inv])
qed

lemma append_items_inv:
  "append_items d lis = Inr d' \<Longrightarrow> distinct (map fst d) \<Longrightarrow>
     distinct (map fst d')
     \<and> li_tid ` set lis \<subseteq> fst ` set d
     \<and> (\<forall>tid. map_of d' tid
            = map_option
                (\<lambda>th. th\<lparr>trace := trace th @ map format_item (filter (\<lambda>li. li_tid li = tid) lis)\<rparr>)
                (map_of d tid))"
proof (induction lis arbitrary: d)
  case Nil
  then show ?case by (simp add: option.map_ident)
next
  case (Cons li lis)
  from Cons.prems(1) obtain th0 where th0: "map_of d (li_tid li) = Some th0"
    and rest: "append_items
                 (AList.update (li_tid li) (th0\<lparr>trace := trace th0 @ [format_item li]\<rparr>) d) lis
               = Inr d'"
    by (auto split: option.splits)
  let ?d = "AList.update (li_tid li) (th0\<lparr>trace := trace th0 @ [format_item li]\<rparr>) d"
  have dist: "distinct (map fst ?d)" using Cons.prems(2) by (rule distinct_update)
  from Cons.IH [OF rest dist]
  have d': "distinct (map fst d')"
    and sub: "li_tid ` set lis \<subseteq> fst ` set ?d"
    and look: "\<forall>tid. map_of d' tid
            = map_option
                (\<lambda>th. th\<lparr>trace := trace th @ map format_item (filter (\<lambda>li. li_tid li = tid) lis)\<rparr>)
                (map_of ?d tid)"
    by simp_all
  have key: "li_tid li \<in> fst ` set d" using map_of_SomeD [OF th0] by force
  then have dom: "fst ` set ?d = fst ` set d" by (auto simp add: dom_update)
  have "\<forall>tid. map_of d' tid
            = map_option
                (\<lambda>th. th\<lparr>trace := trace th
                          @ map format_item (filter (\<lambda>l. li_tid l = tid) (li # lis))\<rparr>)
                (map_of d tid)"
  proof
    fix tid
    show "map_of d' tid
            = map_option
                (\<lambda>th. th\<lparr>trace := trace th
                          @ map format_item (filter (\<lambda>l. li_tid l = tid) (li # lis))\<rparr>)
                (map_of d tid)"
    proof (cases "tid = li_tid li")
      case True
      then show ?thesis using look th0 by (simp add: update_conv')
    next
      case False
      then show ?thesis using look by (simp add: update_conv')
    qed
  qed
  with d' sub dom key show ?case by simp
qed

lemma process_trace_threads:
  assumes "process_trace t = Inr obj"
  shows "distinct (map fst (thread_info obj))"
    and "fst ` set (thread_info obj) = li_tid ` set (dt_items t)"
    and "\<forall>tid th. map_of (thread_info obj) tid = Some th \<longrightarrow>
           trace th = map format_item (filter (\<lambda>li. li_tid li = tid) (dt_items t))
           \<and> trace th \<noteq> []"
proof -
  define d0 where "d0 = declare_threads [] (dt_threads t)"
  from assms obtain d' where d': "append_items d0 (dt_items t) = Inr d'"
    and obj: "thread_info obj = filter (\<lambda>(tid, th). length (trace th) \<noteq> 0) d'"
    unfolding process_trace_def d0_def by (auto split: sum.splits)
  have e1: "distinct (map fst ([] :: (int \<times> thread_rec) list))" by simp
  have e2: "\<forall>tid th. map_of ([] :: (int \<times> thread_rec) list) tid = Some th \<longrightarrow> trace th = []"
    by simp
  have d0: "distinct (map fst d0)" "\<forall>tid th. map_of d0 tid = Some th \<longrightarrow> trace th = []"
    using declare_threads_inv [OF e1 e2, of "dt_threads t"] unfolding d0_def by blast+
  from append_items_inv [OF d' d0(1)]
  have dist: "distinct (map fst d')"
    and sub: "li_tid ` set (dt_items t) \<subseteq> fst ` set d0"
    and look: "\<And>tid. map_of d' tid
            = map_option
                (\<lambda>th. th\<lparr>trace := trace th
                          @ map format_item (filter (\<lambda>li. li_tid li = tid) (dt_items t))\<rparr>)
                (map_of d0 tid)"
    by simp_all
  have entry: "trace th = map format_item (filter (\<lambda>li. li_tid li = tid) (dt_items t))"
    if "(tid, th) \<in> set d'" for tid th
  proof -
    from that dist have "map_of d' tid = Some th" by simp
    with look [of tid] obtain th0 where th0: "map_of d0 tid = Some th0"
      and th: "th = th0\<lparr>trace := trace th0
                          @ map format_item (filter (\<lambda>li. li_tid li = tid) (dt_items t))\<rparr>"
      by (cases "map_of d0 tid") auto
    from d0(2) th0 have "trace th0 = []" by blast
    with th show ?thesis by simp
  qed
  show dist_obj: "distinct (map fst (thread_info obj))"
    unfolding obj using dist by (simp add: distinct_map_filter)
  show "fst ` set (thread_info obj) = li_tid ` set (dt_items t)"
  proof (intro equalityI subsetI)
    fix tid assume "tid \<in> fst ` set (thread_info obj)"
    then obtain th where mem: "(tid, th) \<in> set d'" and ne: "trace th \<noteq> []"
      unfolding obj by auto
    from entry [OF mem] ne have "filter (\<lambda>li. li_tid li = tid) (dt_items t) \<noteq> []" by auto
    then obtain li where "li \<in> set (dt_items t)" "li_tid li = tid"
      by (auto simp add: filter_empty_conv)
    then show "tid \<in> li_tid ` set (dt_items t)" by blast
  next
    fix tid assume tid: "tid \<in> li_tid ` set (dt_items t)"
    with sub have "tid \<in> fst ` set d0" by blast
    then obtain v where "(tid, v) \<in> set d0" by auto
    from weak_map_of_SomeI [OF this] obtain th0 where "map_of d0 tid = Some th0" ..
    with look [of tid] obtain th where th: "map_of d' tid = Some th" by simp
    then have mem: "(tid, th) \<in> set d'" by (rule map_of_SomeD)
    from tid have "filter (\<lambda>li. li_tid li = tid) (dt_items t) \<noteq> []"
      by (auto simp add: filter_empty_conv)
    with entry [OF mem] have "trace th \<noteq> []" by simp
    with mem have "(tid, th) \<in> set (thread_info obj)" unfolding obj by simp
    then show "tid \<in> fst ` set (thread_info obj)" by force
  qed
  show "\<forall>tid th. map_of (thread_info obj) tid = Some th \<longrightarrow>
           trace th = map format_item (filter (\<lambda>li. li_tid li = tid) (dt_items t))
           \<and> trace th \<noteq> []"
  proof (intro allI impI)
    fix tid th assume "map_of (thread_info obj) tid = Some th"
    then have "(tid, th) \<in> set (thread_info obj)" by (rule map_of_SomeD)
    then have "(tid, th) \<in> set d'" and "trace th \<noteq> []" unfolding obj by auto
    with entry show "trace th = map format_item (filter (\<lambda>li. li_tid li = tid) (dt_items t))
           \<and> trace th \<noteq> []" by blast
  qed
qed

lemma compare_trace_Inr:
  assumes "compare_trace d e = Inr recs"
  shows "\<exists>dev emu. process_trace d = Inr dev \<and> process_trace e = Inr emu
           \<and> compare_trace_objs dev emu = Inr recs"
  using assms unfolding compare_trace_def by (auto split: sum.splits)

text \<open>
  C4 as stated fails.  The device thread \<open>main\<close> below has one event, of a \<open>java.\<close> method,
  so its filtered sequence is empty.  It still has a row in the similarity matrix, is
  matched with the emulator thread, and the output holds a record for the pair.
\<close>

theorem filtered_empty_thread_counterexample:
  "process_trace framework_device
     = Inr \<lparr>version = 3,
            thread_info =
              [(1, \<lparr>name = ''main'',
                    trace = [''ent java.lang.Object.<init> ()V Object.java'']\<rparr>)]\<rparr>
   \<and> clean_trace [''ent java.lang.Object.<init> ()V Object.java''] = Inr []
   \<and> build_sim_matrix
         \<lparr>version = 3,
          thread_info =
            [(1, \<lparr>name = ''main'',
                  trace = [''ent java.lang.Object.<init> ()V Object.java'']\<rparr>)]\<rparr>
         \<lparr>version = 3,
          thread_info =
            [(7, \<lparr>name = ''main'', trace = [''ent com.app.Main.run ()V Main.java'']\<rparr>)]\<rparr>
         [1] [7]
       = Inr [[0]]
   \<and> compare_trace framework_device framework_emulator
       = Inr [\<lparr>real_id = 1, real_name = ''main'', real_trace = None,
                emu_id = 7, emu_name = ''main'', e_trace = None,
                sim_cov = 0, max_common_len = 0, diverge_idx = 0, sim_max_common = 1\<rparr>]"
  by code_simp

text \<open>
  C4, amended.  Every thread whose event sequence is empty as parsed is excluded from the
  thread matching entirely: the thread ids that index the similarity matrix are exactly the
  ids that occur on an event line, the matrix has one row per remaining device thread and one
  column per remaining emulator thread, and every record names two threads that have a
  parsed event.  Whether a sequence becomes empty under \<open>clean_trace\<close> plays no part.
\<close>

theorem threads_without_parsed_events_excluded:
  "(process_trace t = Inr obj \<longrightarrow>
      set (sort (map fst (thread_info obj))) = li_tid ` set (dt_items t)
      \<and> (\<forall>tid th. map_of (thread_info obj) tid = Some th \<longrightarrow> trace th \<noteq> []))
   \<and> (build_sim_matrix dev emu
         (sort (map fst (thread_info dev))) (sort (map fst (thread_info emu))) = Inr M \<longrightarrow>
        length M = length (thread_info dev)
        \<and> (\<forall>x < length M. length (M ! x) = length (thread_info emu)))
   \<and> (compare_trace d e = Inr recs \<longrightarrow>
        (\<forall>r \<in> set recs.
           real_id r \<in> li_tid ` set (dt_items d) \<and> emu_id r \<in> li_tid ` set (dt_items e)))"
proof (intro conjI impI)
  assume p: "process_trace t = Inr obj"
  show "set (sort (map fst (thread_info obj))) = li_tid ` set (dt_items t)"
    using process_trace_threads(2) [OF p] by simp
  show "\<forall>tid th. map_of (thread_info obj) tid = Some th \<longrightarrow> trace th \<noteq> []"
    using process_trace_threads(3) [OF p] by blast
next
  assume M: "build_sim_matrix dev emu
         (sort (map fst (thread_info dev))) (sort (map fst (thread_info emu))) = Inr M"
  show "length M = length (thread_info dev)"
    using build_sim_matrix_shape(1) [OF M] by simp
  show "\<forall>x < length M. length (M ! x) = length (thread_info emu)"
    using build_sim_matrix_shape [OF M] by simp
next
  assume run: "compare_trace d e = Inr recs"
  from compare_trace_Inr [OF run] obtain dev' emu'
    where pd: "process_trace d = Inr dev'" and pe: "process_trace e = Inr emu'"
      and objs: "compare_trace_objs dev' emu' = Inr recs"
    by blast
  show "\<forall>r \<in> set recs.
           real_id r \<in> li_tid ` set (dt_items d) \<and> emu_id r \<in> li_tid ` set (dt_items e)"
  proof
    fix r assume "r \<in> set recs"
    from compare_trace_objs_record [OF objs this]
    obtain thr :: thread_rec and the :: thread_rec
      where thr: "map_of (thread_info dev') (real_id r) = Some thr"
        and the: "map_of (thread_info emu') (emu_id r) = Some the"
      by blast
    from map_of_SomeD [OF thr] have "real_id r \<in> fst ` set (thread_info dev')" by force
    moreover from map_of_SomeD [OF the] have "emu_id r \<in> fst ` set (thread_info emu')" by force
    ultimately show "real_id r \<in> li_tid ` set (dt_items d) \<and> emu_id r \<in> li_tid ` set (dt_items e)"
      using process_trace_threads(2) [OF pd] process_trace_threads(2) [OF pe] by simp
  qed
qed

theorem threads_without_parsed_events_excluded_witness:
  "process_trace framework_device
     = Inr \<lparr>version = 3,
            thread_info =
              [(1, \<lparr>name = ''main'',
                    trace = [''ent java.lang.Object.<init> ()V Object.java'']\<rparr>)]\<rparr>
   \<and> set (sort (map fst [(1 :: int, \<lparr>name = ''main'',
                    trace = [''ent java.lang.Object.<init> ()V Object.java'']\<rparr>)]))
       = li_tid ` set (dt_items framework_device)
   \<and> (2 :: int) \<notin> li_tid ` set (dt_items framework_device)"
proof -
  let ?obj = "\<lparr>version = 3,
            thread_info =
              [(1, \<lparr>name = ''main'',
                    trace = [''ent java.lang.Object.<init> ()V Object.java'']\<rparr>)]\<rparr>"
  have h: "process_trace framework_device = Inr ?obj"
    by code_simp
  have "set (sort (map fst (thread_info ?obj))) = li_tid ` set (dt_items framework_device)"
    using threads_without_parsed_events_excluded
            [of framework_device ?obj, THEN conjunct1, rule_format, OF h]
    by blast
  moreover have "(2 :: int) \<notin> li_tid ` set (dt_items framework_device)"
    by (simp add: framework_device_def)
  ultimately show ?thesis using h by simp
qed

section \<open>The matching\<close>

lemma subseq_distinct': "subseq xs ys \<Longrightarrow> distinct ys \<Longrightarrow> distinct xs"
proof (induction rule: list_emb.induct)
  case (list_emb_Nil ys)
  then show ?case by simp
next
  case (list_emb_Cons xs ys y)
  then show ?case by simp
next
  case (list_emb_Cons2 x y xs ys)
  then have "set xs \<subseteq> set ys" by (auto dest: list_emb_set)
  with list_emb_Cons2 show ?case by auto
qed

lemma subseq_set': "subseq xs ys \<Longrightarrow> set xs \<subseteq> set ys"
  by (auto dest: list_emb_set)

lemma assignments_sound:
  "a \<in> set (assignments k rows cols) \<Longrightarrow> distinct cols \<Longrightarrow>
     length a = k \<and> subseq (map fst a) rows
     \<and> distinct (map snd a) \<and> set (map snd a) \<subseteq> set cols"
proof (induction k rows cols arbitrary: a rule: assignments.induct)
  case (1 rows cols)
  then show ?case by simp
next
  case (2 k cols)
  then show ?case by simp
next
  case (3 k r rows cols)
  from "3.prems"(1) consider
    (pick) c a' where "c \<in> set cols" "a' \<in> set (assignments k rows (remove1 c cols))"
      "a = (r, c) # a'"
    | (skip) "a \<in> set (assignments (Suc k) rows cols)"
    by auto
  then show ?case
  proof cases
    case pick
    have "distinct (remove1 c cols)" using "3.prems"(2) by simp
    from "3.IH"(1) [OF pick(1) pick(2) this]
    have len: "length a' = k" and sub: "subseq (map fst a') rows"
      and dist: "distinct (map snd a')" and cols': "set (map snd a') \<subseteq> set (remove1 c cols)"
      by simp_all
    from cols' "3.prems"(2) have "c \<notin> set (map snd a')" and "set (map snd a') \<subseteq> set cols"
      by auto
    with len sub dist pick(1,3) show ?thesis by simp
  next
    case skip
    from "3.IH"(2) [OF skip "3.prems"(2)] show ?thesis by auto
  qed
qed

lemma assignments_complete:
  "distinct cols \<Longrightarrow> length a = k \<Longrightarrow> subseq (map fst a) rows \<Longrightarrow>
     distinct (map snd a) \<Longrightarrow> set (map snd a) \<subseteq> set cols \<Longrightarrow>
     a \<in> set (assignments k rows cols)"
proof (induction k rows cols arbitrary: a rule: assignments.induct)
  case (1 rows cols)
  then show ?case by simp
next
  case (2 k cols)
  then show ?case by simp
next
  case (3 k r rows cols)
  from "3.prems"(2) obtain i j a' where a: "a = (i, j) # a'" and len: "length a' = k"
    by (cases a) auto
  from "3.prems"(4,5) a have j: "j \<in> set cols" and jn: "j \<notin> set (map snd a')"
    and dist: "distinct (map snd a')" and sub: "set (map snd a') \<subseteq> set cols"
    by auto
  show ?case
  proof (cases "i = r")
    case True
    with "3.prems"(3) a have emb: "subseq (map fst a') rows" by simp
    have "distinct (remove1 j cols)" using "3.prems"(1) by simp
    moreover have "set (map snd a') \<subseteq> set (remove1 j cols)"
      using sub jn "3.prems"(1) by auto
    ultimately have "a' \<in> set (assignments k rows (remove1 j cols))"
      using "3.IH"(1) [OF j _ len emb dist] by blast
    with j a True show ?thesis by auto
  next
    case False
    with "3.prems"(3) a have "subseq (map fst a) rows" by simp
    from "3.IH"(2) [OF "3.prems"(1,2) this "3.prems"(4,5)] show ?thesis by simp
  qed
qed

lemma assignments_nonempty:
  "k \<le> length rows \<Longrightarrow> k \<le> length cols \<Longrightarrow> assignments k rows cols \<noteq> []"
proof (induction k rows cols rule: assignments.induct)
  case (1 rows cols)
  then show ?case by simp
next
  case (2 k cols)
  then show ?case by simp
next
  case (3 k r rows cols)
  from "3.prems"(2) obtain c cs where cols: "cols = c # cs" by (cases cols) auto
  then have c: "c \<in> set cols" by simp
  have "k \<le> length rows" using "3.prems"(1) by simp
  moreover have "k \<le> length (remove1 c cols)" using "3.prems"(2) cols by simp
  ultimately have "assignments k rows (remove1 c cols) \<noteq> []"
    using "3.IH"(1) [OF c] by blast
  then obtain a' where "a' \<in> set (assignments k rows (remove1 c cols))"
    by (cases "assignments k rows (remove1 c cols)") auto
  with c have "(r, c) # a' \<in> set (assignments (Suc k) (r # rows) cols)" by auto
  then show ?case by auto
qed

lemma total_similarity_cost: "total_similarity C a = - total_cost C a"
  unfolding total_similarity_def total_cost_def
  by (induction a) (auto split: prod.splits)

lemma total_cost_mset: "mset a = mset b \<Longrightarrow> total_cost C a = total_cost C b"
proof -
  assume eq: "mset a = mset b"
  have "total_cost C xs = sum_mset (image_mset (\<lambda>(i, j). C ! i ! j) (mset xs))" for xs
    unfolding total_cost_def by (metis mset_map sum_mset_sum_list)
  with eq show ?thesis by simp
qed

lemma sorted_distinct_subseq_upt:
  assumes "sorted xs" and "distinct xs" and "set xs \<subseteq> {0..<m}"
  shows "subseq xs [0..<m]"
proof -
  have "xs = filter (\<lambda>x. x \<in> set xs) [0..<m]"
  proof (rule sorted_distinct_set_unique)
    show "sorted xs" and "distinct xs" by fact+
    show "sorted (filter (\<lambda>x. x \<in> set xs) [0..<m])" by (simp add: sorted_wrt_filter)
    show "distinct (filter (\<lambda>x. x \<in> set xs) [0..<m])" by simp
    show "set xs = set (filter (\<lambda>x. x \<in> set xs) [0..<m])" using assms(3) by auto
  qed
  moreover have "subseq (filter (\<lambda>x. x \<in> set xs) [0..<m]) [0..<m]" by simp
  ultimately show ?thesis by simp
qed

lemma one_to_one_enumerated:
  assumes "one_to_one m n b"
  shows "\<exists>a \<in> set (assignments (length b) [0..<m] [0..<n]). mset a = mset b"
proof -
  define a where "a = sort_key fst b"
  have ms: "mset a = mset b" by (simp add: a_def)
  from assms have db: "distinct (map fst b)" and ds: "distinct (map snd b)"
    and rng: "\<forall>(i, j) \<in> set b. i < m \<and> j < n"
    by (simp_all add: one_to_one_def)
  have msf: "mset (map fst a) = mset (map fst b)" and mss: "mset (map snd a) = mset (map snd b)"
    using ms by simp_all
  have "sorted (map fst a)" by (simp add: a_def)
  moreover have "distinct (map fst a)" using mset_eq_imp_distinct_iff [OF msf] db by simp
  moreover have "set (map fst a) \<subseteq> {0..<m}"
    using mset_eq_setD [OF msf] rng by auto
  ultimately have emb: "subseq (map fst a) [0..<m]" by (rule sorted_distinct_subseq_upt)
  have "distinct (map snd a)" using mset_eq_imp_distinct_iff [OF mss] ds by simp
  moreover have "set (map snd a) \<subseteq> set [0..<n]"
    using mset_eq_setD [OF mss] rng by auto
  moreover have "length a = length b" by (simp add: a_def)
  moreover have "distinct [0..<n]" by simp
  ultimately have "a \<in> set (assignments (length b) [0..<m] [0..<n])"
    using emb by (intro assignments_complete) simp_all
  with ms show ?thesis by blast
qed

lemma linear_sum_assignment_optimal:
  "one_to_one m n (linear_sum_assignment m n C)
   \<and> length (linear_sum_assignment m n C) = min m n
   \<and> (\<forall>b. one_to_one m n b \<and> length b = min m n \<longrightarrow>
          total_cost C (linear_sum_assignment m n C) \<le> total_cost C b)"
proof -
  define as where "as = assignments (min m n) [0..<m] [0..<n]"
  define best where "best = arg_min_list (total_cost C) as"
  have ne: "as \<noteq> []" unfolding as_def by (rule assignments_nonempty) simp_all
  have best_in: "best \<in> set as" unfolding best_def using ne by (rule arg_min_list_in)
  have best_min: "total_cost C best = Min (total_cost C ` set as)"
    unfolding best_def using ne by (rule f_arg_min_list_f)
  have best_eq: "linear_sum_assignment m n C = best"
    by (simp add: linear_sum_assignment_def best_def as_def)
  from assignments_sound [OF best_in [unfolded as_def]]
  have len: "length best = min m n" and emb: "subseq (map fst best) [0..<m]"
    and ds: "distinct (map snd best)" and cs: "set (map snd best) \<subseteq> set [0..<n]"
    by simp_all
  have df: "distinct (map fst best)" using emb by (rule subseq_distinct') simp
  have rs: "set (map fst best) \<subseteq> set [0..<m]" using emb by (rule subseq_set')
  have "\<forall>(i, j) \<in> set best. i < m \<and> j < n"
  proof (clarify)
    fix i j assume "(i, j) \<in> set best"
    then have "i \<in> set (map fst best)" "j \<in> set (map snd best)" by force+
    with rs cs show "i < m \<and> j < n" by auto
  qed
  with df ds have oto: "one_to_one m n best" by (simp add: one_to_one_def)
  have opt: "total_cost C best \<le> total_cost C b"
    if b: "one_to_one m n b" "length b = min m n" for b
  proof -
    from one_to_one_enumerated [OF b(1)] b(2) obtain a
      where a: "a \<in> set as" and ms: "mset a = mset b"
      unfolding as_def by auto
    have "Min (total_cost C ` set as) \<le> total_cost C a" using a by simp
    with best_min total_cost_mset [OF ms] show ?thesis by simp
  qed
  from oto len opt show ?thesis unfolding best_eq by blast
qed

text \<open>
  C9.  For the similarity matrix over \<open>m\<close> device threads and \<open>n\<close> emulator threads, the
  matching is a one-to-one pairing of exactly \<open>min m n\<close> pairs, and no one-to-one matching
  of the same size has a greater total similarity.  The entries of the matrix are the
  negated similarities of the thread pairs.
\<close>

theorem matching_maximizes_total_similarity:
  "build_sim_matrix dev emu rl el = Inr sim_matrix \<Longrightarrow>
     one_to_one (length rl) (length el)
       (linear_sum_assignment (length rl) (length el) sim_matrix)
     \<and> length (linear_sum_assignment (length rl) (length el) sim_matrix)
         = min (length rl) (length el)
     \<and> (\<forall>b. one_to_one (length rl) (length el) b
              \<and> length b = length (linear_sum_assignment (length rl) (length el) sim_matrix) \<longrightarrow>
            total_similarity sim_matrix b
              \<le> total_similarity sim_matrix
                   (linear_sum_assignment (length rl) (length el) sim_matrix))
     \<and> (\<forall>x < length rl. \<forall>y < length el.
          \<exists>thr the.
            map_of (thread_info dev) (rl ! x) = Some thr
            \<and> map_of (thread_info emu) (el ! y) = Some the
            \<and> trace_similarity (name thr) (trace thr) (name the) (trace the)
                = Inr (- (sim_matrix ! x ! y)))"
proof -
  assume M: "build_sim_matrix dev emu rl el = Inr sim_matrix"
  note opt = linear_sum_assignment_optimal [of "length rl" "length el" sim_matrix]
  have entries: "\<forall>x < length rl. \<forall>y < length el.
          \<exists>thr the.
            map_of (thread_info dev) (rl ! x) = Some thr
            \<and> map_of (thread_info emu) (el ! y) = Some the
            \<and> trace_similarity (name thr) (trace thr) (name the) (trace the)
                = Inr (- (sim_matrix ! x ! y))"
  proof (intro allI impI)
    fix x y assume "x < length rl" "y < length el"
    from sim_entry_Inr [OF build_sim_matrix_entry [OF M this]]
    show "\<exists>thr the.
            map_of (thread_info dev) (rl ! x) = Some thr
            \<and> map_of (thread_info emu) (el ! y) = Some the
            \<and> trace_similarity (name thr) (trace thr) (name the) (trace the)
                = Inr (- (sim_matrix ! x ! y))"
      by simp
  qed
  have "total_similarity sim_matrix b
          \<le> total_similarity sim_matrix
               (linear_sum_assignment (length rl) (length el) sim_matrix)"
    if "one_to_one (length rl) (length el) b"
      and "length b = length (linear_sum_assignment (length rl) (length el) sim_matrix)"
    for b
    using that opt by (simp add: total_similarity_cost)
  with opt entries show ?thesis by blast
qed

theorem matching_maximizes_total_similarity_witness:
  "build_sim_matrix
       \<lparr>version = 3,
        thread_info =
          [(1, \<lparr>name = ''main'', trace = [''ent com.app.Main.run ()V Main.java'']\<rparr>),
           (2, \<lparr>name = ''worker'', trace = [''ent com.app.Job.work ()V Job.java'']\<rparr>)]\<rparr>
       \<lparr>version = 3,
        thread_info =
          [(7, \<lparr>name = ''worker'', trace = [''ent com.app.Job.work ()V Job.java'']\<rparr>),
           (8, \<lparr>name = ''main'', trace = [''ent com.app.Main.run ()V Main.java'']\<rparr>)]\<rparr>
       [1, 2] [7, 8]
     = Inr [[0, - 1], [- 1, 0]]
   \<and> linear_sum_assignment 2 2 [[0, - 1], [- 1, 0]] = [(0, 1), (1, 0)]
   \<and> one_to_one 2 2 [(0, 0), (1, 1)]
   \<and> total_similarity [[0, - 1], [- 1, 0]] [(0, 0), (1, 1)]
       \<le> total_similarity [[0, - 1], [- 1, 0]] (linear_sum_assignment 2 2 [[0, - 1], [- 1, 0]])"
proof -
  let ?dev = "\<lparr>version = 3,
        thread_info =
          [(1, \<lparr>name = ''main'', trace = [''ent com.app.Main.run ()V Main.java'']\<rparr>),
           (2, \<lparr>name = ''worker'', trace = [''ent com.app.Job.work ()V Job.java'']\<rparr>)]\<rparr>"
  let ?emu = "\<lparr>version = 3,
        thread_info =
          [(7, \<lparr>name = ''worker'', trace = [''ent com.app.Job.work ()V Job.java'']\<rparr>),
           (8, \<lparr>name = ''main'', trace = [''ent com.app.Main.run ()V Main.java'']\<rparr>)]\<rparr>"
  let ?M = "[[0, - 1], [- 1, 0 :: rat]]"
  have h: "build_sim_matrix ?dev ?emu [1, 2] [7, 8] = Inr ?M"
    by code_simp
  have l: "linear_sum_assignment 2 2 ?M = [(0, 1), (1, 0)]"
    by code_simp
  have o: "one_to_one 2 2 [(0, 0), (1, 1)]"
    by (simp add: one_to_one_def)
  have len: "length [1, 2 :: int] = 2" "length [7, 8 :: int] = 2" by simp_all
  from matching_maximizes_total_similarity [OF h, unfolded len]
  have "\<forall>b. one_to_one 2 2 b \<and> length b = length (linear_sum_assignment 2 2 ?M) \<longrightarrow>
          total_similarity ?M b \<le> total_similarity ?M (linear_sum_assignment 2 2 ?M)"
    by blast
  then have "total_similarity ?M [(0, 0), (1, 1)]
               \<le> total_similarity ?M (linear_sum_assignment 2 2 ?M)"
    using o l by simp
  with h l o show ?thesis by simp
qed

end
